theory Spec2Isabelle
  imports Complex_Main "HOL-Library.Word"
begin

unbundle bit_operations_syntax

section \<open>Data model\<close>

text \<open>
  The module encodes and decodes the combined light-update message of Hue Zigbee devices.
  A JavaScript \<open>number\<close> is an IEEE 754 double. A \<open>number\<close> that the code only writes
  into an integer field (mired, transition time, effect code, effect speed, gradient style,
  the scaled 12-bit coordinates) is an \<open>int\<close> here, and the truncation of
  \<open>DataView.setUint8\<close>/\<open>setUint16\<close> modulo \<open>2^8\<close>/\<open>2^16\<close> is written out. A
  \<open>number\<close> that the code computes with (a colour coordinate, the gradient scale and
  offset) is the \<open>real\<close> that the finite double denotes, and every arithmetic operation
  of the code rounds its exact result to the nearest double (\<open>fl\<close> below). The
  brightness, the one \<open>number\<close> that the code compares, is a \<open>number\<close> with its NaN
  and infinities. Bytes of a buffer are \<open>8 word\<close>.
\<close>

type_synonym byte = "8 word"

text \<open>A JavaScript \<open>number\<close>: a finite double (the real it denotes), an infinity or NaN.\<close>

datatype number = Finite real | PosInfinity | NegInfinity | NaN

text \<open>
  One constructor per place where the code throws. \<open>BrightnessRange\<close> is the
  \<open>RangeError\<close> of \<open>toBytes\<close>; \<open>OutOfBounds\<close> is the \<open>RangeError\<close> that a
  \<open>DataView\<close> or typed-array access outside the buffer raises; the other ones are the
  \<open>Error\<close> values thrown with the messages "Expected 3 bytes", "size too small",
  "extends beyond end of data", "not enough data" and "Invariant: precomputed length".
\<close>

datatype error =
    BrightnessRange
  | OutOfBounds
  | Expected3Bytes
  | GradientSizeTooSmall
  | GradientBeyondEnd
  | GradientNotEnoughData
  | InvariantLength

text \<open>The error kinds as the specification names them.\<close>

datatype error_kind = RangeError | LengthError | FormatError | InternalFault

fun kind_of :: "error \<Rightarrow> error_kind" where
  "kind_of BrightnessRange = RangeError"
| "kind_of OutOfBounds = LengthError"
| "kind_of Expected3Bytes = LengthError"
| "kind_of GradientSizeTooSmall = FormatError"
| "kind_of GradientBeyondEnd = FormatError"
| "kind_of GradientNotEnoughData = FormatError"
| "kind_of InvariantLength = InternalFault"

text \<open>The \<open>Flags\<close> enum: \<open>1 << k\<close>.\<close>

definition ON_OFF :: int where "ON_OFF = push_bit 0 1"
definition BRIGHTNESS :: int where "BRIGHTNESS = push_bit 1 1"
definition COLOR_MIRED :: int where "COLOR_MIRED = push_bit 2 1"
definition COLOR_XY :: int where "COLOR_XY = push_bit 3 1"
definition TRANSITION_TIME :: int where "TRANSITION_TIME = push_bit 4 1"
definition EFFECT :: int where "EFFECT = push_bit 5 1"
definition GRADIENT_PARAMS :: int where "GRADIENT_PARAMS = push_bit 6 1"
definition EFFECT_SPEED :: int where "EFFECT_SPEED = push_bit 7 1"
definition GRADIENT_COLORS :: int where "GRADIENT_COLORS = push_bit 8 1"

text \<open>\<open>HueLightGradientStyle\<close>: the codes of the three named styles.\<close>

definition LINEAR :: int where "LINEAR = 0"
definition SCATTERED :: int where "SCATTERED = 2"
definition MIRRORED :: int where "MIRRORED = 4"

text \<open>
  \<open>HueLightColorXYScaled\<close> (fields \<open>x\<close>, \<open>y\<close>) and \<open>HueLightColorXY\<close> (fields \<open>x\<close>,
  \<open>y\<close>); the field names carry a prefix because a record field is a constant.
\<close>

record HueLightColorXYScaled =
  sx :: int
  sy :: int

record HueLightColorXY =
  cx :: real
  cy :: real

record HueLightColorMired =
  mired :: int

record HueLightGradient =
  style :: int
  colors :: "HueLightColorXY list"

record HueLightGradientParams =
  scale :: real
  offset :: real

text \<open>An attribute that is \<open>undefined\<close> is \<open>None\<close>.\<close>

record HueLightUpdateMessage =
  isOn :: "bool option"
  brightness :: "number option"
  colorTemp :: "HueLightColorMired option"
  colorXY :: "HueLightColorXY option"
  transitionTime :: "int option"
  effect :: "int option"
  effectSpeed :: "int option"
  gradient :: "HueLightGradient option"
  gradientParams :: "HueLightGradientParams option"

text \<open>\<open>new HueLightUpdateMessage()\<close>: nothing set.\<close>

definition new_message :: HueLightUpdateMessage where
  "new_message = \<lparr>isOn = None, brightness = None, colorTemp = None, colorXY = None,
     transitionTime = None, effect = None, effectSpeed = None, gradient = None,
     gradientParams = None\<rparr>"

section \<open>The platform operations the code calls\<close>

text \<open>Sequencing of operations that may throw.\<close>

definition bindE :: "error + 'a \<Rightarrow> ('a \<Rightarrow> error + 'b) \<Rightarrow> error + 'b" where
  "bindE r f = (case r of Inl e \<Rightarrow> Inl e | Inr v \<Rightarrow> f v)"

fun seq_all :: "('s \<Rightarrow> error + 's) list \<Rightarrow> 's \<Rightarrow> error + 's" where
  "seq_all [] s = Inr s"
| "seq_all (f # fs) s = (case f s of Inl e \<Rightarrow> Inl e | Inr s' \<Rightarrow> seq_all fs s')"

text \<open>\<open>Math.trunc\<close>, also the first step of the conversion of a number to an integer type.\<close>

definition js_trunc :: "real \<Rightarrow> int" where
  "js_trunc r = (if 0 \<le> r then \<lfloor>r\<rfloor> else \<lceil>r\<rceil>)"

text \<open>
  The relational operator \<open><\<close> on numbers: false whenever an operand is NaN.
\<close>

fun js_less :: "number \<Rightarrow> number \<Rightarrow> bool" where
  "js_less (Finite a) (Finite b) = (a < b)"
| "js_less (Finite a) PosInfinity = True"
| "js_less NegInfinity (Finite b) = True"
| "js_less NegInfinity PosInfinity = True"
| "js_less _ _ = False"

text \<open>
  The integer from which the conversion of a number to an integer type starts: a finite
  number truncated, NaN and the infinities 0.
\<close>

fun ToIntegerOrZero :: "number \<Rightarrow> int" where
  "ToIntegerOrZero (Finite r) = js_trunc r"
| "ToIntegerOrZero _ = 0"

text \<open>
  Rounding to the nearest double, ties to even. The doubles around \<open>y\<close> are the multiples
  of \<open>ulp y\<close>, which is \<open>2^(e - 52)\<close> for \<open>2^e \<le> |y| < 2^(e + 1)\<close> and \<open>2^(-1074)\<close> in
  the subnormal range. The exponent has no upper bound here: where the code would
  overflow to an infinity the model has a multiple of \<open>2^971\<close> of the same sign, and the
  code hands such a result only to the clamp \<open>Math.max(0, Math.min(_, 1))\<close>, which gives
  the same 1 or 0 for both, or to the conversion to an 8-bit or 16-bit integer, which gives
  0 for both.
\<close>

definition round_even :: "real \<Rightarrow> int" where
  "round_even z = (let f = \<lfloor>z\<rfloor>; d = z - of_int f in
     if d < 1/2 then f else if 1/2 < d then f + 1 else if even f then f else f + 1)"

definition binade :: "real \<Rightarrow> int" where
  "binade y = (if y = 0 then - 1022 else max \<lfloor>log 2 \<bar>y\<bar>\<rfloor> (- 1022))"

definition ulp :: "real \<Rightarrow> real" where
  "ulp y = 2 powr (of_int (binade y) - 52)"

definition fl :: "real \<Rightarrow> real" where
  "fl y = of_int (round_even (y / ulp y)) * ulp y"

definition ToUint8 :: "int \<Rightarrow> byte" where
  "ToUint8 n = word_of_int (n mod 256)"

definition ToUint16 :: "int \<Rightarrow> int" where
  "ToUint16 n = n mod 65536"

text \<open>\<open>DataView\<close> reads and writes (16-bit ones little-endian); out of bounds they throw.\<close>

definition getUint8 :: "byte list \<Rightarrow> nat \<Rightarrow> error + int" where
  "getUint8 data off = (if off + 1 \<le> length data then Inr (uint (data ! off)) else Inl OutOfBounds)"

definition getUint16 :: "byte list \<Rightarrow> nat \<Rightarrow> error + int" where
  "getUint16 data off =
     (if off + 2 \<le> length data then Inr (uint (data ! off) + 256 * uint (data ! (off + 1)))
      else Inl OutOfBounds)"

definition setUint8 :: "byte list \<Rightarrow> nat \<Rightarrow> int \<Rightarrow> error + byte list" where
  "setUint8 arr off v = (if off + 1 \<le> length arr then Inr (arr[off := ToUint8 v]) else Inl OutOfBounds)"

definition setUint16 :: "byte list \<Rightarrow> nat \<Rightarrow> int \<Rightarrow> error + byte list" where
  "setUint16 arr off v =
     (if off + 2 \<le> length arr
      then Inr (arr[off := word_of_int (ToUint16 v mod 256), off + 1 := word_of_int (ToUint16 v div 256)])
      else Inl OutOfBounds)"

text \<open>\<open>TypedArray.prototype.set(source, offset)\<close>.\<close>

definition typed_array_set :: "byte list \<Rightarrow> byte list \<Rightarrow> nat \<Rightarrow> error + byte list" where
  "typed_array_set arr src off =
     (if off + length src \<le> length arr
      then Inr (take off arr @ src @ drop (off + length src) arr)
      else Inl OutOfBounds)"

text \<open>\<open>new Uint8Array(buffer, byteOffset, length)\<close>: a view of \<open>n\<close> bytes from \<open>off\<close>.\<close>

definition subarray :: "byte list \<Rightarrow> nat \<Rightarrow> nat \<Rightarrow> error + byte list" where
  "subarray data off n = (if off + n \<le> length data then Inr (take n (drop off data)) else Inl OutOfBounds)"

section \<open>Colours\<close>

text \<open>\<open>HueLightColorXYScaled.toBytes\<close> and \<open>HueLightColorXYScaled.fromBytes\<close>.\<close>

definition HueLightColorXYScaled_toBytes :: "HueLightColorXYScaled \<Rightarrow> byte list" where
  "HueLightColorXYScaled_toBytes c =
     [ToUint8 (sx c AND 0x0ff),
      ToUint8 (drop_bit 8 (sx c AND 0xf00) OR push_bit 4 (sy c AND 0x00f)),
      ToUint8 (drop_bit 4 (sy c AND 0xff0))]"

definition HueLightColorXYScaled_fromBytes :: "byte list \<Rightarrow> error + HueLightColorXYScaled" where
  "HueLightColorXYScaled_fromBytes data =
     (if length data \<noteq> 3 then Inl Expected3Bytes
      else let a = uint (data ! 0); b = uint (data ! 1); c = uint (data ! 2)
           in Inr \<lparr>sx = push_bit 8 (b AND 0x0f) OR a, sy = push_bit 4 c OR drop_bit 4 b\<rparr>)"

text \<open>
  \<open>SCALING_MAX_X = 0.7347\<close> and \<open>SCALING_MAX_Y = 0.8264\<close>: the doubles that the two
  decimal literals denote.
\<close>

definition SCALING_MAX_X :: real where "SCALING_MAX_X = fl 0.7347"
definition SCALING_MAX_Y :: real where "SCALING_MAX_Y = fl 0.8264"

text \<open>
  \<open>HueLightColorXY.toScaled\<close> and \<open>HueLightColorXY.fromScaled\<close>; the division and the
  multiplication each round.
\<close>

definition toScaled :: "HueLightColorXY \<Rightarrow> HueLightColorXYScaled" where
  "toScaled c =
     \<lparr>sx = js_trunc (fl (0xfff * max 0 (min (fl (cx c / SCALING_MAX_X)) 1))),
      sy = js_trunc (fl (0xfff * max 0 (min (fl (cy c / SCALING_MAX_Y)) 1)))\<rparr>"

definition fromScaled :: "HueLightColorXYScaled \<Rightarrow> HueLightColorXY" where
  "fromScaled s =
     \<lparr>cx = fl (fl (of_int (sx s) / 0xfff) * SCALING_MAX_X),
      cy = fl (fl (of_int (sy s) / 0xfff) * SCALING_MAX_Y)\<rparr>"

section \<open>\<open>HueLightUpdateMessage.toBytes\<close>\<close>

text \<open>The locals of \<open>toBytes\<close> that change: the buffer, the write offset, the flag word.\<close>

record writer =
  w_array :: "byte list"
  w_offset :: nat
  w_flags :: int

definition encodedLength :: "HueLightUpdateMessage \<Rightarrow> nat" where
  "encodedLength m =
     2 +
     (if isOn m \<noteq> None then 1 else 0) +
     (if brightness m \<noteq> None then 1 else 0) +
     (if colorTemp m \<noteq> None then 2 else 0) +
     (if colorXY m \<noteq> None then 4 else 0) +
     (if transitionTime m \<noteq> None then 2 else 0) +
     (if effect m \<noteq> None then 1 else 0) +
     (case gradient m of None \<Rightarrow> 0 | Some g \<Rightarrow> 5 + 3 * length (colors g)) +
     (if effectSpeed m \<noteq> None then 1 else 0) +
     (if gradientParams m \<noteq> None then 2 else 0)"

definition enc_isOn :: "HueLightUpdateMessage \<Rightarrow> writer \<Rightarrow> error + writer" where
  "enc_isOn m s = (case isOn m of None \<Rightarrow> Inr s | Some v \<Rightarrow>
     bindE (setUint8 (w_array s) (w_offset s) (if v then 1 else 0)) (\<lambda>a.
     Inr \<lparr>w_array = a, w_offset = w_offset s + 1, w_flags = w_flags s OR ON_OFF\<rparr>))"

definition enc_brightness :: "HueLightUpdateMessage \<Rightarrow> writer \<Rightarrow> error + writer" where
  "enc_brightness m s = (case brightness m of None \<Rightarrow> Inr s | Some b \<Rightarrow>
     if js_less b (Finite 1) \<or> js_less (Finite 254) b then Inl BrightnessRange
     else bindE (setUint8 (w_array s) (w_offset s) (ToIntegerOrZero b)) (\<lambda>a.
          Inr \<lparr>w_array = a, w_offset = w_offset s + 1, w_flags = w_flags s OR BRIGHTNESS\<rparr>))"

definition enc_colorTemp :: "HueLightUpdateMessage \<Rightarrow> writer \<Rightarrow> error + writer" where
  "enc_colorTemp m s = (case colorTemp m of None \<Rightarrow> Inr s | Some t \<Rightarrow>
     bindE (setUint16 (w_array s) (w_offset s) (mired t)) (\<lambda>a.
     Inr \<lparr>w_array = a, w_offset = w_offset s + 2, w_flags = w_flags s OR COLOR_MIRED\<rparr>))"

definition enc_colorXY :: "HueLightUpdateMessage \<Rightarrow> writer \<Rightarrow> error + writer" where
  "enc_colorXY m s = (case colorXY m of None \<Rightarrow> Inr s | Some c \<Rightarrow>
     bindE (setUint16 (w_array s) (w_offset s) (js_trunc (fl (cx c * 0xffff)))) (\<lambda>a.
     bindE (setUint16 a (w_offset s + 2) (js_trunc (fl (cy c * 0xffff)))) (\<lambda>a'.
     Inr \<lparr>w_array = a', w_offset = w_offset s + 4, w_flags = w_flags s OR COLOR_XY\<rparr>)))"

definition enc_transitionTime :: "HueLightUpdateMessage \<Rightarrow> writer \<Rightarrow> error + writer" where
  "enc_transitionTime m s = (case transitionTime m of None \<Rightarrow> Inr s | Some t \<Rightarrow>
     bindE (setUint16 (w_array s) (w_offset s) t) (\<lambda>a.
     Inr \<lparr>w_array = a, w_offset = w_offset s + 2, w_flags = w_flags s OR TRANSITION_TIME\<rparr>))"

definition enc_effect :: "HueLightUpdateMessage \<Rightarrow> writer \<Rightarrow> error + writer" where
  "enc_effect m s = (case effect m of None \<Rightarrow> Inr s | Some e \<Rightarrow>
     bindE (setUint8 (w_array s) (w_offset s) e) (\<lambda>a.
     Inr \<lparr>w_array = a, w_offset = w_offset s + 1, w_flags = w_flags s OR EFFECT\<rparr>))"

text \<open>The loop \<open>for (const color of gradient.colors)\<close>.\<close>

fun write_colors :: "HueLightColorXY list \<Rightarrow> byte list \<Rightarrow> nat \<Rightarrow> error + (byte list \<times> nat)" where
  "write_colors [] arr off = Inr (arr, off)"
| "write_colors (c # cs) arr off =
     (case typed_array_set arr (HueLightColorXYScaled_toBytes (toScaled c)) off of
        Inl e \<Rightarrow> Inl e
      | Inr arr' \<Rightarrow> write_colors cs arr' (off + 3))"

definition enc_gradient :: "HueLightUpdateMessage \<Rightarrow> writer \<Rightarrow> error + writer" where
  "enc_gradient m s = (case gradient m of None \<Rightarrow> Inr s | Some g \<Rightarrow>
     let size = 4 + 3 * int (length (colors g)) in
     bindE (setUint8 (w_array s) (w_offset s) size) (\<lambda>a1.
     bindE (setUint8 a1 (w_offset s + 1) (push_bit 4 (int (length (colors g))))) (\<lambda>a2.
     bindE (setUint8 a2 (w_offset s + 2) (style g)) (\<lambda>a3.
     bindE (write_colors (colors g) a3 (w_offset s + 5)) (\<lambda>(a4, off).
     Inr \<lparr>w_array = a4, w_offset = off, w_flags = w_flags s OR GRADIENT_COLORS\<rparr>)))))"

definition enc_effectSpeed :: "HueLightUpdateMessage \<Rightarrow> writer \<Rightarrow> error + writer" where
  "enc_effectSpeed m s = (case effectSpeed m of None \<Rightarrow> Inr s | Some v \<Rightarrow>
     bindE (setUint8 (w_array s) (w_offset s) v) (\<lambda>a.
     Inr \<lparr>w_array = a, w_offset = w_offset s + 1, w_flags = w_flags s OR EFFECT_SPEED\<rparr>))"

definition enc_gradientParams :: "HueLightUpdateMessage \<Rightarrow> writer \<Rightarrow> error + writer" where
  "enc_gradientParams m s = (case gradientParams m of None \<Rightarrow> Inr s | Some p \<Rightarrow>
     bindE (setUint8 (w_array s) (w_offset s) (js_trunc (fl (scale p * 8)))) (\<lambda>a.
     bindE (setUint8 a (w_offset s + 1) (js_trunc (fl (offset p * 8)))) (\<lambda>a'.
     Inr \<lparr>w_array = a', w_offset = w_offset s + 2, w_flags = w_flags s OR GRADIENT_PARAMS\<rparr>)))"

text \<open>
  The body of \<open>toBytes\<close> up to the invariant check: the buffer of the precomputed length,
  the offset starting at 2, and the nine attribute blocks in the order of the code.
\<close>

definition write_fields :: "HueLightUpdateMessage \<Rightarrow> error + writer" where
  "write_fields m =
     seq_all [enc_isOn m, enc_brightness m, enc_colorTemp m, enc_colorXY m, enc_transitionTime m,
              enc_effect m, enc_gradient m, enc_effectSpeed m, enc_gradientParams m]
       \<lparr>w_array = replicate (encodedLength m) 0, w_offset = 2, w_flags = 0\<rparr>"

definition toBytes :: "HueLightUpdateMessage \<Rightarrow> error + byte list" where
  "toBytes m =
     bindE (write_fields m) (\<lambda>s.
     if w_offset s \<noteq> encodedLength m then Inl InvariantLength
     else setUint16 (w_array s) 0 (w_flags s))"

section \<open>\<open>HueLightUpdateMessage.fromBytes\<close>\<close>

text \<open>The state of the decoder is the message under construction and the read offset.\<close>

type_synonym reader = "HueLightUpdateMessage \<times> nat"

definition dec_isOn :: "int \<Rightarrow> byte list \<Rightarrow> reader \<Rightarrow> error + reader" where
  "dec_isOn flags data = (\<lambda>(r, off).
     if flags AND ON_OFF \<noteq> 0
     then bindE (getUint8 data off) (\<lambda>v. Inr (r\<lparr>isOn := Some (v \<noteq> 0)\<rparr>, off + 1))
     else Inr (r, off))"

definition dec_brightness :: "int \<Rightarrow> byte list \<Rightarrow> reader \<Rightarrow> error + reader" where
  "dec_brightness flags data = (\<lambda>(r, off).
     if flags AND BRIGHTNESS \<noteq> 0
     then bindE (getUint8 data off) (\<lambda>v. Inr (r\<lparr>brightness := Some (Finite (of_int v))\<rparr>, off + 1))
     else Inr (r, off))"

definition dec_colorTemp :: "int \<Rightarrow> byte list \<Rightarrow> reader \<Rightarrow> error + reader" where
  "dec_colorTemp flags data = (\<lambda>(r, off).
     if flags AND COLOR_MIRED \<noteq> 0
     then bindE (getUint16 data off) (\<lambda>v. Inr (r\<lparr>colorTemp := Some \<lparr>mired = v\<rparr>\<rparr>, off + 2))
     else Inr (r, off))"

definition dec_colorXY :: "int \<Rightarrow> byte list \<Rightarrow> reader \<Rightarrow> error + reader" where
  "dec_colorXY flags data = (\<lambda>(r, off).
     if flags AND COLOR_XY \<noteq> 0
     then bindE (getUint16 data off) (\<lambda>vx.
          bindE (getUint16 data (off + 2)) (\<lambda>vy.
          Inr (r\<lparr>colorXY := Some \<lparr>cx = fl (of_int vx / 0xffff), cy = fl (of_int vy / 0xffff)\<rparr>\<rparr>,
               off + 4)))
     else Inr (r, off))"

definition dec_transitionTime :: "int \<Rightarrow> byte list \<Rightarrow> reader \<Rightarrow> error + reader" where
  "dec_transitionTime flags data = (\<lambda>(r, off).
     if flags AND TRANSITION_TIME \<noteq> 0
     then bindE (getUint16 data off) (\<lambda>v. Inr (r\<lparr>transitionTime := Some v\<rparr>, off + 2))
     else Inr (r, off))"

definition dec_effect :: "int \<Rightarrow> byte list \<Rightarrow> reader \<Rightarrow> error + reader" where
  "dec_effect flags data = (\<lambda>(r, off).
     if flags AND EFFECT \<noteq> 0
     then bindE (getUint8 data off) (\<lambda>v. Inr (r\<lparr>effect := Some v\<rparr>, off + 1))
     else Inr (r, off))"

text \<open>The loop \<open>for (colorOffset = colorsStart; colorOffset < colorsEnd; colorOffset += 3)\<close>.\<close>

function read_colors :: "byte list \<Rightarrow> nat \<Rightarrow> nat \<Rightarrow> error + HueLightColorXY list" where
  "read_colors data colorOffset colorsEnd =
     (if colorOffset < colorsEnd
      then (case subarray data colorOffset 3 of Inl e \<Rightarrow> Inl e | Inr bs \<Rightarrow>
           (case HueLightColorXYScaled_fromBytes bs of Inl e \<Rightarrow> Inl e | Inr sc \<Rightarrow>
           (case read_colors data (colorOffset + 3) colorsEnd of Inl e \<Rightarrow> Inl e | Inr cs \<Rightarrow>
              Inr (fromScaled sc # cs))))
      else Inr [])"
  by pat_completeness auto
termination
  by (relation "measure (\<lambda>(data, colorOffset, colorsEnd). colorsEnd - colorOffset)") auto

declare read_colors.simps [simp del]

definition dec_gradient :: "int \<Rightarrow> byte list \<Rightarrow> reader \<Rightarrow> error + reader" where
  "dec_gradient flags data = (\<lambda>(r, off).
     if flags AND GRADIENT_COLORS \<noteq> 0
     then bindE (getUint8 data off) (\<lambda>size.
          if size < 4 then Inl GradientSizeTooSmall
          else if int off + size + 1 > int (length data) then Inl GradientBeyondEnd
          else bindE (getUint8 data (off + 1)) (\<lambda>b.
               bindE (getUint8 data (off + 2)) (\<lambda>st.
               let colorCount = drop_bit 4 b;
                   colorsStart = off + 5;
                   colorsEnd = colorsStart + nat colorCount * 3
               in if int colorsEnd > int off + size + 1 then Inl GradientNotEnoughData
                  else bindE (read_colors data colorsStart colorsEnd) (\<lambda>cs.
                       Inr (r\<lparr>gradient := Some \<lparr>style = st, colors = cs\<rparr>\<rparr>, off + nat size + 1)))))
     else Inr (r, off))"

definition dec_effectSpeed :: "int \<Rightarrow> byte list \<Rightarrow> reader \<Rightarrow> error + reader" where
  "dec_effectSpeed flags data = (\<lambda>(r, off).
     if flags AND EFFECT_SPEED \<noteq> 0
     then bindE (getUint8 data off) (\<lambda>v. Inr (r\<lparr>effectSpeed := Some v\<rparr>, off + 1))
     else Inr (r, off))"

definition dec_gradientParams :: "int \<Rightarrow> byte list \<Rightarrow> reader \<Rightarrow> error + reader" where
  "dec_gradientParams flags data = (\<lambda>(r, off).
     if flags AND GRADIENT_PARAMS \<noteq> 0
     then bindE (getUint8 data off) (\<lambda>v.
          bindE (getUint8 data (off + 1)) (\<lambda>w.
          Inr (r\<lparr>gradientParams := Some \<lparr>scale = fl (of_int v / 8), offset = fl (of_int w / 8)\<rparr>\<rparr>,
               off + 2)))
     else Inr (r, off))"

definition fromBytes :: "byte list \<Rightarrow> error + HueLightUpdateMessage" where
  "fromBytes data =
     bindE (getUint16 data 0) (\<lambda>flags.
     bindE (seq_all [dec_isOn flags data, dec_brightness flags data, dec_colorTemp flags data,
                     dec_colorXY flags data, dec_transitionTime flags data, dec_effect flags data,
                     dec_gradient flags data, dec_effectSpeed flags data,
                     dec_gradientParams flags data] (new_message, 2)) (\<lambda>(r, off).
     Inr r))"

section \<open>The encoder as a function of the message\<close>

text \<open>
  The bytes that each attribute block of \<open>toBytes\<close> contributes, the payload they make in
  the order of the code, and the flag word. These are proved below to be what the
  imperative \<open>toBytes\<close> writes; the theorems about the program are stated on
  \<open>toBytes\<close> and \<open>fromBytes\<close> themselves.
\<close>

definition u16le :: "int \<Rightarrow> byte list" where
  "u16le v = [word_of_int (ToUint16 v mod 256), word_of_int (ToUint16 v div 256)]"

definition color_bytes :: "HueLightColorXY \<Rightarrow> byte list" where
  "color_bytes c = HueLightColorXYScaled_toBytes (toScaled c)"

definition b_isOn :: "HueLightUpdateMessage \<Rightarrow> byte list" where
  "b_isOn m = (case isOn m of None \<Rightarrow> [] | Some v \<Rightarrow> [ToUint8 (if v then 1 else 0)])"
definition b_brightness :: "HueLightUpdateMessage \<Rightarrow> byte list" where
  "b_brightness m = (case brightness m of None \<Rightarrow> [] | Some b \<Rightarrow> [ToUint8 (ToIntegerOrZero b)])"
definition b_colorTemp :: "HueLightUpdateMessage \<Rightarrow> byte list" where
  "b_colorTemp m = (case colorTemp m of None \<Rightarrow> [] | Some t \<Rightarrow> u16le (mired t))"
definition b_colorXY :: "HueLightUpdateMessage \<Rightarrow> byte list" where
  "b_colorXY m = (case colorXY m of None \<Rightarrow> [] | Some c \<Rightarrow>
     u16le (js_trunc (fl (cx c * 0xffff))) @ u16le (js_trunc (fl (cy c * 0xffff))))"
definition b_transitionTime :: "HueLightUpdateMessage \<Rightarrow> byte list" where
  "b_transitionTime m = (case transitionTime m of None \<Rightarrow> [] | Some t \<Rightarrow> u16le t)"
definition b_effect :: "HueLightUpdateMessage \<Rightarrow> byte list" where
  "b_effect m = (case effect m of None \<Rightarrow> [] | Some e \<Rightarrow> [ToUint8 e])"
definition b_gradient :: "HueLightUpdateMessage \<Rightarrow> byte list" where
  "b_gradient m = (case gradient m of None \<Rightarrow> [] | Some g \<Rightarrow>
     [ToUint8 (4 + 3 * int (length (colors g))), ToUint8 (push_bit 4 (int (length (colors g)))),
      ToUint8 (style g), 0, 0] @ concat (map color_bytes (colors g)))"
definition b_effectSpeed :: "HueLightUpdateMessage \<Rightarrow> byte list" where
  "b_effectSpeed m = (case effectSpeed m of None \<Rightarrow> [] | Some v \<Rightarrow> [ToUint8 v])"
definition b_gradientParams :: "HueLightUpdateMessage \<Rightarrow> byte list" where
  "b_gradientParams m = (case gradientParams m of None \<Rightarrow> [] | Some p \<Rightarrow>
     [ToUint8 (js_trunc (fl (scale p * 8))), ToUint8 (js_trunc (fl (offset p * 8)))])"

definition payload :: "HueLightUpdateMessage \<Rightarrow> byte list" where
  "payload m = b_isOn m @ b_brightness m @ b_colorTemp m @ b_colorXY m @ b_transitionTime m @
     b_effect m @ b_gradient m @ b_effectSpeed m @ b_gradientParams m"

definition flag_word :: "HueLightUpdateMessage \<Rightarrow> int" where
  "flag_word m =
     (if isOn m \<noteq> None then ON_OFF else 0) OR
     (if brightness m \<noteq> None then BRIGHTNESS else 0) OR
     (if colorTemp m \<noteq> None then COLOR_MIRED else 0) OR
     (if colorXY m \<noteq> None then COLOR_XY else 0) OR
     (if transitionTime m \<noteq> None then TRANSITION_TIME else 0) OR
     (if effect m \<noteq> None then EFFECT else 0) OR
     (if gradient m \<noteq> None then GRADIENT_COLORS else 0) OR
     (if effectSpeed m \<noteq> None then EFFECT_SPEED else 0) OR
     (if gradientParams m \<noteq> None then GRADIENT_PARAMS else 0)"

section \<open>Quantities of a buffer that the statements about \<open>fromBytes\<close> use\<close>

text \<open>
  \<open>flags_of\<close> is the flag word that \<open>fromBytes\<close> reads from the first two bytes.
  \<open>fixed_before\<close> is the number of bytes of the flagged attributes that come before the
  gradient block (on/off, brightness, mired, XY, transition time, effect), \<open>fixed_after\<close>
  that of the ones after it (effect speed, gradient parameters); \<open>gradient_offset\<close> is
  the read offset at which the gradient block, if flagged, begins. \<open>decode_outcome\<close>
  lists, in the order of the code, the checks that make \<open>fromBytes\<close> throw; it is proved
  below to give the error of \<open>fromBytes\<close> (\<open>None\<close> when it returns a message).
\<close>

definition fixed_before :: "int \<Rightarrow> nat" where
  "fixed_before flags =
     (if flags AND ON_OFF \<noteq> 0 then 1 else 0) +
     ((if flags AND BRIGHTNESS \<noteq> 0 then 1 else 0) +
     ((if flags AND COLOR_MIRED \<noteq> 0 then 2 else 0) +
     ((if flags AND COLOR_XY \<noteq> 0 then 4 else 0) +
     ((if flags AND TRANSITION_TIME \<noteq> 0 then 2 else 0) +
     ((if flags AND EFFECT \<noteq> 0 then 1 else 0) + 0)))))"

definition fixed_after :: "int \<Rightarrow> nat" where
  "fixed_after flags =
     (if flags AND EFFECT_SPEED \<noteq> 0 then 1 else 0) +
     ((if flags AND GRADIENT_PARAMS \<noteq> 0 then 2 else 0) + 0)"

definition gradient_offset :: "int \<Rightarrow> nat" where
  "gradient_offset flags = 2 + fixed_before flags"

definition flags_of :: "byte list \<Rightarrow> int" where
  "flags_of data = uint (data ! 0) + 256 * uint (data ! 1)"

text \<open>
  \<open>gradient_end data\<close> is \<open>offset + size + 1\<close> for the offset of the gradient block and
  its size byte: the first offset after the block as its size byte declares it.
\<close>

definition gradient_end :: "byte list \<Rightarrow> nat" where
  "gradient_end data =
     gradient_offset (flags_of data) + unat (data ! gradient_offset (flags_of data)) + 1"

definition decode_outcome :: "byte list \<Rightarrow> error option" where
  "decode_outcome data =
     (if length data < 2 then Some OutOfBounds
      else let flags = flags_of data; goff = gradient_offset flags in
        if length data < goff then Some OutOfBounds
        else if flags AND GRADIENT_COLORS = 0
        then (if length data < goff + fixed_after flags then Some OutOfBounds else None)
        else if length data \<le> goff then Some OutOfBounds
        else let size = nat (uint (data ! goff)) in
          if size < 4 then Some GradientSizeTooSmall
          else if length data < goff + size + 1 then Some GradientBeyondEnd
          else if size < 4 + 3 * nat (drop_bit 4 (uint (data ! (goff + 1)))) then Some GradientNotEnoughData
          else if length data < goff + size + 1 + fixed_after flags then Some OutOfBounds
          else None)"

text \<open>
  \<open>reads data n b f\<close>: the step \<open>f\<close> of the decoder consumes exactly \<open>n\<close> bytes when they
  are there, sets the attributes of the flag bits \<open>b\<close>, leaves the gradient alone, and
  throws on a buffer that ends too early.
\<close>

definition reads :: "byte list \<Rightarrow> nat \<Rightarrow> int \<Rightarrow> (reader \<Rightarrow> error + reader) \<Rightarrow> bool" where
  "reads data n b f =
     (\<forall>r off. off \<le> length data \<longrightarrow>
        (if off + n \<le> length data
         then \<exists>r'. f (r, off) = Inr (r', off + n) \<and> flag_word r' = flag_word r OR b
                \<and> gradient r' = gradient r
         else f (r, off) = Inl OutOfBounds))"

text \<open>
  The length that the flag word, and the size byte of the gradient block when there is one,
  declare: a buffer shorter than this is truncated.
\<close>

definition required_length :: "byte list \<Rightarrow> nat" where
  "required_length data =
     (if length data < 2 then 2
      else let flags = flags_of data; goff = gradient_offset flags in
        if flags AND GRADIENT_COLORS = 0 then goff + fixed_after flags
        else if length data \<le> goff then goff + 1
        else goff + 1 + unat (data ! goff) + fixed_after flags)"

text \<open>\<open>extends f g\<close>: wherever the step \<open>f\<close> returns a state, \<open>g\<close> returns the same one.\<close>

definition extends :: "('s \<Rightarrow> error + 's) \<Rightarrow> ('s \<Rightarrow> error + 's) \<Rightarrow> bool" where
  "extends f g = (\<forall>s s'. f s = Inr s' \<longrightarrow> g s = Inr s')"

text \<open>
  \<open>agree_from2 f g\<close>: from every read offset past the flag word the steps \<open>f\<close> and \<open>g\<close>
  do the same, and leave the offset past the flag word.
\<close>

definition agree_from2 :: "(reader \<Rightarrow> error + reader) \<Rightarrow> (reader \<Rightarrow> error + reader) \<Rightarrow> bool" where
  "agree_from2 f g =
     (\<forall>r off. 2 \<le> off \<longrightarrow> f (r, off) = g (r, off) \<and>
        (\<forall>r' off'. f (r, off) = Inr (r', off') \<longrightarrow> 2 \<le> off'))"

text \<open>
  \<open>wire_image m\<close> is the message that the bytes of \<open>toBytes m\<close> decode to (proved below
  for a gradient of at most 15 colours): integers reduced modulo the width of their field,
  fractions truncated to the grid of their field, gradient colours clamped and truncated
  to 12 bits, each with the rounding of the arithmetic that the code performs.
\<close>

definition wire_image :: "HueLightUpdateMessage \<Rightarrow> HueLightUpdateMessage" where
  "wire_image m =
     \<lparr>isOn = isOn m,
      brightness = map_option (\<lambda>b. Finite (of_int (ToIntegerOrZero b mod 256))) (brightness m),
      colorTemp = map_option (\<lambda>t. \<lparr>mired = mired t mod 65536\<rparr>) (colorTemp m),
      colorXY = map_option (\<lambda>c. \<lparr>cx = fl (of_int (js_trunc (fl (cx c * 0xffff)) mod 65536) / 0xffff),
                                    cy = fl (of_int (js_trunc (fl (cy c * 0xffff)) mod 65536) / 0xffff)\<rparr>)
                  (colorXY m),
      transitionTime = map_option (\<lambda>t. t mod 65536) (transitionTime m),
      effect = map_option (\<lambda>e. e mod 256) (effect m),
      effectSpeed = map_option (\<lambda>v. v mod 256) (effectSpeed m),
      gradient = map_option (\<lambda>g. \<lparr>style = style g mod 256,
                                     colors = map (\<lambda>c. fromScaled (toScaled c)) (colors g)\<rparr>) (gradient m),
      gradientParams = map_option
        (\<lambda>p. \<lparr>scale = fl (of_int (js_trunc (fl (scale p * 8)) mod 256) / 8),
               offset = fl (of_int (js_trunc (fl (offset p * 8)) mod 256) / 8)\<rparr>)
        (gradientParams m)\<rparr>"

section \<open>Ranges and tolerance of the round trip\<close>

text \<open>
  \<open>close_xy c c'\<close>: each coordinate of \<open>c'\<close> is within 1/4095 of the maximum of its
  axis from that of \<open>c\<close>. \<open>close_xy_rounded c c'\<close>: the same with \<open>4 / 2^53\<close> more,
  which is \<open>2^(-53)\<close> for each of the four rounded operations of \<open>toScaled\<close> and
  \<open>fromScaled\<close>.
  \<open>in_documented_range m\<close>: every attribute that is set lies in the range the source
  documents for it and its field can hold: brightness a whole number from 1 to 254, mired
  and transition time 0 to 65535, effect code, effect speed and gradient style one byte,
  the coordinates of \<open>colorXY\<close> in \<open>[0, 1]\<close>, gradient scale and offset between 0 and
  31.875 in steps of 0.125, at most 15 gradient colours; and each coordinate of a gradient
  colour lies no further than the tolerance of \<open>close_xy_rounded\<close> outside the interval
  from 0 to the maximum of its axis, to which \<open>toScaled\<close> clamps it.
\<close>

definition close_xy :: "HueLightColorXY \<Rightarrow> HueLightColorXY \<Rightarrow> bool" where
  "close_xy c c' =
     (\<bar>cx c' - cx c\<bar> \<le> SCALING_MAX_X / 4095 \<and> \<bar>cy c' - cy c\<bar> \<le> SCALING_MAX_Y / 4095)"

definition close_xy_rounded :: "HueLightColorXY \<Rightarrow> HueLightColorXY \<Rightarrow> bool" where
  "close_xy_rounded c c' =
     (\<bar>cx c' - cx c\<bar> \<le> SCALING_MAX_X / 4095 + 4 / 2 ^ 53 \<and>
      \<bar>cy c' - cy c\<bar> \<le> SCALING_MAX_Y / 4095 + 4 / 2 ^ 53)"

definition in_documented_range :: "HueLightUpdateMessage \<Rightarrow> bool" where
  "in_documented_range m =
     ((case brightness m of None \<Rightarrow> True
       | Some b \<Rightarrow> (case b of Finite r \<Rightarrow> 1 \<le> r \<and> r \<le> 254 \<and> of_int \<lfloor>r\<rfloor> = r | _ \<Rightarrow> False)) \<and>
      (case colorTemp m of None \<Rightarrow> True | Some t \<Rightarrow> 0 \<le> mired t \<and> mired t \<le> 65535) \<and>
      (case colorXY m of None \<Rightarrow> True | Some c \<Rightarrow> 0 \<le> cx c \<and> cx c \<le> 1 \<and> 0 \<le> cy c \<and> cy c \<le> 1) \<and>
      (case transitionTime m of None \<Rightarrow> True | Some t \<Rightarrow> 0 \<le> t \<and> t \<le> 65535) \<and>
      (case effect m of None \<Rightarrow> True | Some e \<Rightarrow> 0 \<le> e \<and> e \<le> 255) \<and>
      (case effectSpeed m of None \<Rightarrow> True | Some v \<Rightarrow> 0 \<le> v \<and> v \<le> 255) \<and>
      (case gradient m of None \<Rightarrow> True | Some g \<Rightarrow>
         0 \<le> style g \<and> style g \<le> 255 \<and> length (colors g) \<le> 15 \<and>
         list_all (\<lambda>c. - (SCALING_MAX_X / 4095 + 4 / 2 ^ 53) \<le> cx c \<and>
                       cx c \<le> SCALING_MAX_X + (SCALING_MAX_X / 4095 + 4 / 2 ^ 53) \<and>
                       - (SCALING_MAX_Y / 4095 + 4 / 2 ^ 53) \<le> cy c \<and>
                       cy c \<le> SCALING_MAX_Y + (SCALING_MAX_Y / 4095 + 4 / 2 ^ 53))
           (colors g)) \<and>
      (case gradientParams m of None \<Rightarrow> True | Some p \<Rightarrow>
         0 \<le> scale p \<and> scale p \<le> 31.875 \<and> of_int \<lfloor>scale p * 8\<rfloor> = scale p * 8 \<and>
         0 \<le> offset p \<and> offset p \<le> 31.875 \<and> of_int \<lfloor>offset p * 8\<rfloor> = offset p * 8))"

section \<open>Rounding to the nearest double\<close>

lemma round_even_bounds: "\<lfloor>z\<rfloor> \<le> round_even z" "round_even z \<le> \<lfloor>z\<rfloor> + 1"
  by (simp_all add: round_even_def Let_def)

lemma round_even_err: "\<bar>of_int (round_even z) - z\<bar> \<le> 1/2"
proof -
  have "of_int \<lfloor>z\<rfloor> \<le> z" "z < of_int \<lfloor>z\<rfloor> + 1" by linarith+
  then show ?thesis
    by (auto simp add: round_even_def Let_def)
qed

lemma round_even_int: "round_even (of_int k) = k"
  by (simp add: round_even_def)

lemma round_even_unique:
  assumes "\<bar>z - of_int r\<bar> < 1/2"
  shows "round_even z = r"
proof -
  have "\<bar>real_of_int (round_even z) - real_of_int r\<bar> < 1"
    using round_even_err [of z] assms by linarith
  then have "\<bar>round_even z - r\<bar> < 1"
    by (metis of_int_abs of_int_diff of_int_less_1_iff)
  then show ?thesis by linarith
qed

lemma round_even_mono:
  assumes "z \<le> z'"
  shows "round_even z \<le> round_even z'"
proof (cases "\<lfloor>z\<rfloor> = \<lfloor>z'\<rfloor>")
  case True
  then show ?thesis
    using assms by (auto simp add: round_even_def Let_def)
next
  case False
  then have "\<lfloor>z\<rfloor> < \<lfloor>z'\<rfloor>"
    using floor_mono [OF assms] by linarith
  then show ?thesis
    using round_even_bounds(2) [of z] round_even_bounds(1) [of z'] by linarith
qed

lemma round_even_nonneg: "0 \<le> z \<Longrightarrow> 0 \<le> round_even z"
  using round_even_bounds(1) [of z] by (smt (verit) zero_le_floor)

lemma round_even_nonpos: "z \<le> 0 \<Longrightarrow> round_even z \<le> 0"
  using round_even_mono [of z 0] by (simp add: round_even_def)

lemma ulp_pos: "0 < ulp y"
  by (simp add: ulp_def)

lemma fl_0: "fl 0 = 0"
  by (simp add: fl_def round_even_def)

lemma fl_err: "\<bar>fl y - y\<bar> \<le> ulp y / 2"
proof -
  have "fl y - y = (of_int (round_even (y / ulp y)) - y / ulp y) * ulp y"
    using ulp_pos [of y] by (simp add: fl_def field_simps)
  then have "\<bar>fl y - y\<bar> = \<bar>of_int (round_even (y / ulp y)) - y / ulp y\<bar> * ulp y"
    using ulp_pos [of y] by (simp add: abs_mult)
  also have "\<dots> \<le> 1/2 * ulp y"
    using round_even_err [of "y / ulp y"] ulp_pos [of y] by (intro mult_right_mono) simp_all
  finally show ?thesis by simp
qed

lemma fl_nonneg: "0 \<le> y \<Longrightarrow> 0 \<le> fl y"
  using ulp_pos [of y] round_even_nonneg [of "y / ulp y"] by (simp add: fl_def)

lemma fl_nonpos: "y \<le> 0 \<Longrightarrow> fl y \<le> 0"
  using ulp_pos [of y] round_even_nonpos [of "y / ulp y"]
  by (simp add: fl_def mult_le_0_iff divide_le_0_iff)

lemma binade_ge: "- 1022 \<le> binade y"
  by (simp add: binade_def)

lemma powr_binade_le: "2 powr (of_int (binade y)) \<le> max \<bar>y\<bar> (2 powr (- 1022))"
proof (cases "y = 0")
  case True
  then show ?thesis by (simp add: binade_def)
next
  case False
  then have pos: "0 < \<bar>y\<bar>" by simp
  have "2 powr (of_int \<lfloor>log 2 \<bar>y\<bar>\<rfloor>) \<le> 2 powr (log 2 \<bar>y\<bar>)"
    by (intro powr_mono) simp_all
  then have a: "2 powr (of_int \<lfloor>log 2 \<bar>y\<bar>\<rfloor>) \<le> \<bar>y\<bar>"
    using pos by simp
  show ?thesis
  proof (cases "\<lfloor>log 2 \<bar>y\<bar>\<rfloor> \<le> - 1022")
    case True
    then have "binade y = - 1022" using False by (simp add: binade_def)
    then show ?thesis by simp
  next
    case False
    then have "binade y = \<lfloor>log 2 \<bar>y\<bar>\<rfloor>" using \<open>y \<noteq> 0\<close> by (simp add: binade_def)
    then show ?thesis using a by simp
  qed
qed

lemma ulp_le:
  assumes "\<bar>y\<bar> \<le> B" "2 powr (- 1022) \<le> B"
  shows "ulp y \<le> B * 2 powr (- 52)"
proof -
  have "ulp y = 2 powr (of_int (binade y)) * 2 powr (- 52)"
    by (simp add: ulp_def powr_diff powr_minus field_simps)
  moreover have "2 powr (of_int (binade y)) \<le> B"
    using powr_binade_le [of y] assms by linarith
  ultimately show ?thesis by simp
qed

lemma fl_err_bound:
  assumes "\<bar>y\<bar> \<le> B" "2 powr (- 1022) \<le> B"
  shows "\<bar>fl y - y\<bar> \<le> B / 2 ^ 53"
proof -
  have e: "(2::real) powr (- 52) = 1 / 2 ^ 52"
    by (simp add: powr_minus_divide)
  have "ulp y \<le> B * (1 / 2 ^ 52)"
    using ulp_le [OF assms] unfolding e .
  then show ?thesis
    using fl_err [of y] by simp
qed

lemma binade_eqI:
  assumes "2 powr (of_int e) \<le> \<bar>y\<bar>" "\<bar>y\<bar> < 2 powr (of_int e + 1)" "- 1022 \<le> e"
  shows "binade y = e"
proof -
  have "0 < \<bar>y\<bar>" using assms(1) by (smt (verit) powr_gt_zero)
  then have "y \<noteq> 0" by simp
  have "\<lfloor>log 2 \<bar>y\<bar>\<rfloor> = e"
    using assms \<open>0 < \<bar>y\<bar>\<close> by (simp add: floor_log_eq_powr_iff)
  then show ?thesis using \<open>y \<noteq> 0\<close> assms(3) by (simp add: binade_def)
qed

lemma ulp_binade: "ulp y = 2 powr (of_int (binade y)) / 2 ^ 52"
  by (simp add: ulp_def powr_diff)

lemma fl_is:
  assumes n: "n \<le> 1074"
    and lo: "2 ^ 52 \<le> \<bar>y\<bar> * 2 ^ n" and hi: "\<bar>y\<bar> * 2 ^ n < 2 ^ 53"
    and r: "\<bar>y * 2 ^ n - of_int r\<bar> < 1/2"
  shows "fl y = of_int r / 2 ^ n"
proof -
  define e :: int where "e = 52 - int n"
  have pe: "(2::real) powr (of_int e) = 2 ^ 52 / 2 ^ n"
    by (simp add: e_def powr_diff powr_realpow)
  have pe1: "(2::real) powr (of_int e + 1) = 2 ^ 53 / 2 ^ n"
    by (simp add: e_def powr_diff powr_realpow powr_add)
  have b: "binade y = e"
  proof (rule binade_eqI)
    show "2 powr (of_int e) \<le> \<bar>y\<bar>" unfolding pe using lo by (simp add: field_simps)
    show "\<bar>y\<bar> < 2 powr (of_int e + 1)" unfolding pe1 using hi by (simp add: field_simps)
    show "- 1022 \<le> e" using n by (simp add: e_def)
  qed
  have u: "ulp y = 1 / 2 ^ n"
    unfolding ulp_binade b pe by simp
  have "round_even (y / ulp y) = r"
    using r by (intro round_even_unique) (simp add: u)
  then show ?thesis by (simp add: fl_def u)
qed

lemma binade_le:
  assumes "y \<noteq> 0" "\<bar>y\<bar> < 2 powr (of_int k + 1)" "- 1022 \<le> k"
  shows "binade y \<le> k"
proof -
  have "log 2 \<bar>y\<bar> < of_int k + 1"
    using assms(1,2) by (simp add: log_less_iff)
  then have "\<lfloor>log 2 \<bar>y\<bar>\<rfloor> \<le> k" by linarith
  then show ?thesis using assms by (simp add: binade_def)
qed

lemma fl_exact:
  assumes m: "\<bar>m\<bar> < 2 ^ 53" and j: "j \<le> 1074"
  shows "fl (of_int m / 2 ^ j) = of_int m / 2 ^ j"
proof (cases "m = 0")
  case True
  then show ?thesis by (simp add: fl_0)
next
  case False
  define y :: real where "y = of_int m / 2 ^ j"
  define k :: int where "k = 52 - int j"
  have y0: "y \<noteq> 0" using False by (simp add: y_def)
  have "\<bar>real_of_int m\<bar> < 2 ^ 53"
    using m by (metis of_int_abs of_int_less_numeral_power_cancel_iff)
  then have "\<bar>y\<bar> < 2 ^ 53 / 2 ^ j"
    by (simp add: y_def divide_strict_right_mono)
  moreover have "(2::real) powr (of_int k + 1) = 2 ^ 53 / 2 ^ j"
    by (simp add: k_def powr_diff powr_realpow powr_add)
  ultimately have "\<bar>y\<bar> < 2 powr (of_int k + 1)" by simp
  then have bk: "binade y \<le> k"
    using y0 j by (intro binade_le) (simp_all add: k_def)
  define t where "t = nat (k - binade y)"
  have kt: "of_int (binade y) = of_int k - real t"
    using bk by (simp add: t_def)
  have u: "ulp y = 1 / (2 ^ j * 2 ^ t)"
    unfolding ulp_def kt k_def
    by (simp add: powr_diff powr_realpow powr_minus_divide field_simps)
  have "y / ulp y = of_int (m * 2 ^ t)"
    unfolding u by (simp add: y_def)
  then have "round_even (y / ulp y) = m * 2 ^ t"
    by (simp only: round_even_int)
  then have "fl y = y"
    unfolding fl_def u by (simp add: y_def)
  then show ?thesis by (simp add: y_def)
qed

lemma fl_of_int: "\<bar>m\<bar> < 2 ^ 53 \<Longrightarrow> fl (of_int m) = of_int m"
  using fl_exact [of m 0] by simp

lemma fl_1: "fl 1 = 1"
  using fl_of_int [of 1] by simp

lemma lt_powr_binade:
  assumes "y \<noteq> 0"
  shows "\<bar>y\<bar> < 2 powr (of_int (binade y) + 1)"
proof -
  have pos: "0 < \<bar>y\<bar>" using assms by simp
  have "log 2 \<bar>y\<bar> < of_int \<lfloor>log 2 \<bar>y\<bar>\<rfloor> + 1" by linarith
  also have "\<dots> \<le> of_int (binade y) + 1" using assms by (simp add: binade_def)
  finally have "log 2 \<bar>y\<bar> < of_int (binade y) + 1" .
  then show ?thesis using pos by (simp add: log_less_iff)
qed

lemma fl_le_next:
  assumes "0 < y"
  shows "fl y \<le> 2 powr (of_int (binade y) + 1)"
proof -
  have "y < 2 powr (of_int (binade y) + 1)"
    using lt_powr_binade [of y] assms by simp
  then have "y / ulp y < 2 ^ 53"
    using ulp_pos [of y] by (simp add: ulp_binade powr_add field_simps)
  then have "y / ulp y \<le> of_int (2 ^ 53)" by simp
  then have "round_even (y / ulp y) \<le> 2 ^ 53"
    using round_even_mono round_even_int by metis
  then have "real_of_int (round_even (y / ulp y)) \<le> 2 ^ 53"
    by (metis of_int_le_numeral_power_cancel_iff)
  then have "fl y \<le> 2 ^ 53 * ulp y"
    unfolding fl_def using ulp_pos [of y] by (intro mult_right_mono) simp_all
  also have "\<dots> = 2 powr (of_int (binade y) + 1)"
    by (simp add: ulp_binade powr_add)
  finally show ?thesis .
qed

lemma fl_ge_binade:
  assumes "0 < y" "- 1022 < binade y"
  shows "2 powr (of_int (binade y)) \<le> fl y"
proof -
  have y0: "y \<noteq> 0" using assms by simp
  have "binade y = \<lfloor>log 2 \<bar>y\<bar>\<rfloor>"
    using assms(2) y0 by (simp add: binade_def split: if_splits)
  then have "of_int (binade y) \<le> log 2 y" using assms(1) by simp
  then have "2 powr (of_int (binade y)) \<le> y"
    using assms(1) by (simp add: le_log_iff)
  then have "of_int (2 ^ 52) \<le> y / ulp y"
    using ulp_pos [of y] by (simp add: ulp_binade field_simps)
  then have "2 ^ 52 \<le> round_even (y / ulp y)"
    using round_even_mono round_even_int by metis
  then have "2 ^ 52 \<le> real_of_int (round_even (y / ulp y))"
    by (metis numeral_power_le_of_int_cancel_iff)
  then have "2 ^ 52 * ulp y \<le> fl y"
    unfolding fl_def using ulp_pos [of y] by (intro mult_right_mono) simp_all
  moreover have "2 ^ 52 * ulp y = 2 powr (of_int (binade y))"
    by (simp add: ulp_binade)
  ultimately show ?thesis by simp
qed

lemma binade_mono:
  assumes "0 < y" "y \<le> y'"
  shows "binade y \<le> binade y'"
proof -
  have "log 2 y \<le> log 2 y'" using assms by simp
  then have "\<lfloor>log 2 y\<rfloor> \<le> \<lfloor>log 2 y'\<rfloor>" by (rule floor_mono)
  then show ?thesis using assms by (simp add: binade_def)
qed

lemma fl_mono_nonneg:
  assumes "0 \<le> y" "y \<le> y'"
  shows "fl y \<le> fl y'"
proof (cases "y = 0")
  case True
  then show ?thesis using fl_nonneg [of y'] assms by (simp add: fl_0)
next
  case False
  then have pos: "0 < y" "0 < y'" using assms by simp_all
  show ?thesis
  proof (cases "binade y = binade y'")
    case True
    then have u: "ulp y' = ulp y" by (simp add: ulp_def)
    have "y / ulp y \<le> y' / ulp y"
      using assms ulp_pos [of y] by (simp add: divide_right_mono)
    then have "round_even (y / ulp y) \<le> round_even (y' / ulp y)"
      by (rule round_even_mono)
    then show ?thesis
      unfolding fl_def u using ulp_pos [of y] by (intro mult_right_mono) simp_all
  next
    case False
    then have lt: "binade y < binade y'"
      using binade_mono [OF pos(1) assms(2)] by simp
    then have "- 1022 < binade y'" using binade_ge [of y] by linarith
    then have "2 powr (of_int (binade y')) \<le> fl y'"
      using pos by (intro fl_ge_binade)
    moreover have "fl y \<le> 2 powr (of_int (binade y) + 1)"
      using pos by (intro fl_le_next)
    moreover have "(2::real) powr (of_int (binade y) + 1) \<le> 2 powr (of_int (binade y'))"
      using lt by (intro powr_mono) simp_all
    ultimately show ?thesis by linarith
  qed
qed

lemma fl_mono:
  assumes "y \<le> y'" "0 \<le> y' \<or> 0 \<le> y"
  shows "fl y \<le> fl y'"
proof (cases "0 \<le> y")
  case True
  then show ?thesis using assms by (intro fl_mono_nonneg)
next
  case False
  then have "fl y \<le> 0" by (intro fl_nonpos) simp
  moreover have "0 \<le> fl y'" using assms False by (intro fl_nonneg) auto
  ultimately show ?thesis by simp
qed

section \<open>Bit arithmetic of the packed colour\<close>

lemma and_255: "(x::int) AND 0x0ff = x mod 256"
proof -
  have "(0x0ff::int) = mask 8" by (simp add: mask_eq_exp_minus_1)
  then show ?thesis by (simp only: take_bit_eq_mask[symmetric] take_bit_eq_mod) simp
qed

lemma and_15: "(x::int) AND 0x0f = x mod 16"
proof -
  have "(0x0f::int) = mask 4" by (simp add: mask_eq_exp_minus_1)
  then show ?thesis by (simp only: take_bit_eq_mask[symmetric] take_bit_eq_mod) simp
qed

lemma hi_nibble_x: "drop_bit 8 ((x::int) AND 0xf00) = (x div 256) mod 16"
proof -
  have e: "(0xf00::int) = push_bit 8 (mask 4)" by (simp add: mask_eq_exp_minus_1 push_bit_eq_mult)
  have "drop_bit 8 (x AND push_bit 8 (mask 4)) = take_bit 4 (drop_bit 8 x)"
    by (rule bit_eqI) (auto simp add: bit_simps)
  then show ?thesis unfolding e by (simp add: take_bit_eq_mod drop_bit_eq_div)
qed

lemma hi_byte_y: "drop_bit 4 ((y::int) AND 0xff0) = (y div 16) mod 256"
proof -
  have e: "(0xff0::int) = push_bit 4 (mask 8)" by (simp add: mask_eq_exp_minus_1 push_bit_eq_mult)
  have "drop_bit 4 (y AND push_bit 4 (mask 8)) = take_bit 8 (drop_bit 4 y)"
    by (rule bit_eqI) (auto simp add: bit_simps)
  then show ?thesis unfolding e by (simp add: take_bit_eq_mod drop_bit_eq_div)
qed

lemma or_disjoint_nibbles: "(a::int) mod 16 OR push_bit 4 b = a mod 16 + 16 * b"
proof -
  have "take_bit 4 a OR push_bit 4 b = take_bit 4 a + push_bit 4 b"
    by (rule disjunctive_add[symmetric]) (auto simp add: bit_simps)
  then show ?thesis by (simp add: take_bit_eq_mod push_bit_eq_mult)
qed

lemma or_disjoint_bytes: "push_bit 8 (b::int) OR a mod 256 = a mod 256 + 256 * b"
proof -
  have "push_bit 8 b OR take_bit 8 a = push_bit 8 b + take_bit 8 a"
    by (rule disjunctive_add[symmetric]) (auto simp add: bit_simps)
  then show ?thesis by (simp add: take_bit_eq_mod push_bit_eq_mult)
qed


lemma uint_ToUint8: "uint (ToUint8 n) = n mod 256"
  by (simp add: ToUint8_def uint_word_of_int)

section \<open>The scaled colour codec\<close>

lemma scaled_layout:
  "HueLightColorXYScaled_toBytes c =
     [ToUint8 (sx c mod 256),
      ToUint8 ((sx c div 256) mod 16 + 16 * (sy c mod 16)),
      ToUint8 ((sy c div 16) mod 256)]"
  unfolding HueLightColorXYScaled_toBytes_def and_255 and_15 hi_nibble_x hi_byte_y
    or_disjoint_nibbles by (rule refl)

lemma scaled_roundtrip:
  assumes r: "0 \<le> x \<and> x \<le> 4095 \<and> 0 \<le> y \<and> y \<le> 4095"
  shows "HueLightColorXYScaled_fromBytes (HueLightColorXYScaled_toBytes \<lparr>sx = x, sy = y\<rparr>)
          = Inr \<lparr>sx = x, sy = y\<rparr>"
proof -
  define q where "q = x div 256"
  define p where "p = y div 16"
  define u where "u = y mod 16"
  have "x = 256 * q + x mod 256" "0 \<le> x mod 256" "x mod 256 < 256"
    by (simp_all add: q_def)
  with r have q: "0 \<le> q" "q < 16" by linarith+
  have "y = 16 * p + u" "0 \<le> u" "u < 16"
    by (simp_all add: p_def u_def)
  with r have p: "0 \<le> p" "p < 256" and u: "0 \<le> u" "u < 16" by linarith+
  have x1: "x div 256 mod 16 = x div 256" using q by (simp add: q_def)
  have y1: "y div 16 mod 256 = y div 16" using p by (simp add: p_def)
  have "0 \<le> q + 16 * u" "q + 16 * u < 256" using q u by linarith+
  then have b: "(x div 256 + 16 * (y mod 16)) mod 256 = x div 256 + 16 * (y mod 16)"
    by (simp add: q_def u_def)
  have "(q + 16 * u) mod 16 = q" using q by simp
  then have bx: "(x div 256 + 16 * (y mod 16)) mod 16 = x div 256"
    by (simp add: q_def u_def)
  have "(q + 16 * u) div 16 = u" using q by simp
  then have by': "drop_bit 4 (x div 256 + 16 * (y mod 16)) = y mod 16"
    by (simp add: drop_bit_eq_div q_def u_def)
  have ox: "push_bit 8 (x div 256) OR x mod 256 = x"
    by (simp add: or_disjoint_bytes)
  have oy: "push_bit 4 (y div 16) OR y mod 16 = y"
    using or_disjoint_nibbles[of y "y div 16"] by (simp add: or.commute)
  show ?thesis
    unfolding scaled_layout
    by (simp add: HueLightColorXYScaled_fromBytes_def uint_ToUint8 and_15 x1 y1 b bx by' ox oy)
qed

text \<open>
  C7. \<open>HueLightColorXYScaled.toBytes\<close> lays the two 12-bit values out in exactly three
  bytes: the low 8 bits of \<open>x\<close>; the high 4 bits of \<open>x\<close> in the low nibble and the low
  4 bits of \<open>y\<close> in the high nibble; the high 8 bits of \<open>y\<close>. For \<open>x\<close> and \<open>y\<close> in
  \<open>0..4095\<close>, \<open>fromBytes\<close> gives back the colour that \<open>toBytes\<close> packed. \<open>fromBytes\<close>
  throws "Expected 3 bytes" on every input whose length is not 3, and returns a colour on
  every input of length 3.
\<close>

theorem scaled_color_codec:
  "HueLightColorXYScaled_toBytes c =
     [ToUint8 (sx c mod 256),
      ToUint8 ((sx c div 256) mod 16 + 16 * (sy c mod 16)),
      ToUint8 ((sy c div 16) mod 256)]
   \<and> length (HueLightColorXYScaled_toBytes c) = 3
   \<and> (0 \<le> x \<and> x \<le> 4095 \<and> 0 \<le> y \<and> y \<le> 4095 \<longrightarrow>
        HueLightColorXYScaled_fromBytes (HueLightColorXYScaled_toBytes \<lparr>sx = x, sy = y\<rparr>)
          = Inr \<lparr>sx = x, sy = y\<rparr>)
   \<and> (length data \<noteq> 3 \<longrightarrow> HueLightColorXYScaled_fromBytes data = Inl Expected3Bytes)
   \<and> (length data = 3 \<longrightarrow> (\<exists>c'. HueLightColorXYScaled_fromBytes data = Inr c'))"
proof (intro conjI impI)
  show "HueLightColorXYScaled_toBytes c =
     [ToUint8 (sx c mod 256),
      ToUint8 ((sx c div 256) mod 16 + 16 * (sy c mod 16)),
      ToUint8 ((sy c div 16) mod 256)]"
    by (rule scaled_layout)
  show "length (HueLightColorXYScaled_toBytes c) = 3"
    by (simp add: HueLightColorXYScaled_toBytes_def)
  show "HueLightColorXYScaled_fromBytes data = Inl Expected3Bytes" if "length data \<noteq> 3"
    using that by (simp add: HueLightColorXYScaled_fromBytes_def)
  show "\<exists>c'. HueLightColorXYScaled_fromBytes data = Inr c'" if "length data = 3"
    using that by (simp add: HueLightColorXYScaled_fromBytes_def Let_def)
  show "HueLightColorXYScaled_fromBytes (HueLightColorXYScaled_toBytes \<lparr>sx = x, sy = y\<rparr>)
          = Inr \<lparr>sx = x, sy = y\<rparr>"
    if "0 \<le> x \<and> x \<le> 4095 \<and> 0 \<le> y \<and> y \<le> 4095"
    using that by (rule scaled_roundtrip)
qed

theorem scaled_color_codec_witness:
  "HueLightColorXYScaled_toBytes \<lparr>sx = 0x123, sy = 0xabc\<rparr> = [0x23, 0xc1, 0xab]
   \<and> HueLightColorXYScaled_fromBytes [0x23, 0xc1, 0xab] = Inr \<lparr>sx = 0x123, sy = 0xabc\<rparr>
   \<and> HueLightColorXYScaled_fromBytes [0x23, 0xc1] = Inl Expected3Bytes"
proof -
  note t = scaled_color_codec [of "\<lparr>sx = 0x123, sy = 0xabc\<rparr>" "0x123" "0xabc" "[0x23, 0xc1]"]
  have b: "HueLightColorXYScaled_toBytes \<lparr>sx = 0x123, sy = 0xabc\<rparr> = [0x23, 0xc1, 0xab]"
    using t by (simp add: ToUint8_def)
  have "0 \<le> (0x123::int) \<and> (0x123::int) \<le> 4095 \<and> 0 \<le> (0xabc::int) \<and> (0xabc::int) \<le> 4095"
    by simp
  with t have "HueLightColorXYScaled_fromBytes (HueLightColorXYScaled_toBytes \<lparr>sx = 0x123, sy = 0xabc\<rparr>)
          = Inr \<lparr>sx = 0x123, sy = 0xabc\<rparr>"
    by blast
  then have r: "HueLightColorXYScaled_fromBytes [0x23, 0xc1, 0xab] = Inr \<lparr>sx = 0x123, sy = 0xabc\<rparr>"
    unfolding b .
  have e: "HueLightColorXYScaled_fromBytes [0x23, 0xc1] = Inl Expected3Bytes"
    using t by simp
  show ?thesis using b r e by (intro conjI)
qed

section \<open>What \<open>toBytes\<close> writes\<close>

lemma setUint8_at:
  "length pre = off \<Longrightarrow> setUint8 (pre @ z # zs) off v = Inr (pre @ ToUint8 v # zs)"
  by (auto simp add: setUint8_def)

lemma setUint16_at:
  "length pre = off \<Longrightarrow> setUint16 (pre @ z # z' # zs) off v = Inr (pre @ u16le v @ zs)"
  by (auto simp add: setUint16_def u16le_def list_update_append)

lemma typed_array_set_at:
  "length pre = off \<Longrightarrow> length src = length zs \<Longrightarrow>
   typed_array_set (pre @ zs @ post) src off = Inr (pre @ src @ post)"
  by (auto simp add: typed_array_set_def)

lemma length_color_bytes: "length (color_bytes c) = 3"
  by (simp add: color_bytes_def HueLightColorXYScaled_toBytes_def)

lemma length_concat_color_bytes: "length (concat (map color_bytes cs)) = 3 * length cs"
  by (induction cs) (simp_all add: length_color_bytes)

lemma write_colors_Cons:
  "write_colors (c # cs) arr off =
     (case typed_array_set arr (color_bytes c) off of Inl e \<Rightarrow> Inl e
      | Inr arr' \<Rightarrow> write_colors cs arr' (off + 3))"
  by (simp add: color_bytes_def)

lemma write_colors_at:
  "length pre = off \<Longrightarrow>
   write_colors cs (pre @ replicate (3 * length cs + k) 0) off =
     Inr (pre @ concat (map color_bytes cs) @ replicate k 0, off + 3 * length cs)"
proof (induction cs arbitrary: pre off)
  case Nil
  then show ?case by simp
next
  case (Cons c cs)
  have split: "replicate (3 * length (c # cs) + k) (0::byte) = replicate 3 0 @ replicate (3 * length cs + k) 0"
    by (simp add: replicate_add[symmetric])
  have w: "typed_array_set (pre @ replicate 3 0 @ replicate (3 * length cs + k) 0) (color_bytes c) off
        = Inr (pre @ color_bytes c @ replicate (3 * length cs + k) 0)"
    using Cons.prems by (intro typed_array_set_at) (simp_all add: length_color_bytes)
  have "write_colors cs ((pre @ color_bytes c) @ replicate (3 * length cs + k) 0) (off + 3)
      = Inr ((pre @ color_bytes c) @ concat (map color_bytes cs) @ replicate k 0, (off + 3) + 3 * length cs)"
    using Cons.prems by (intro Cons.IH) (simp add: length_color_bytes)
  then show ?case
    unfolding split write_colors_Cons by (simp add: w)
qed


lemma length_u16le: "length (u16le v) = 2"
  by (simp add: u16le_def)

lemma rep1: "replicate (Suc 0 + k) (0::byte) = 0 # replicate k 0" by simp
lemma rep2: "replicate (2 + k) (0::byte) = 0 # 0 # replicate k 0" by (simp add: numeral_2_eq_2)
lemma rep4: "replicate (4 + k) (0::byte) = 0 # 0 # 0 # 0 # replicate k 0"
  by (simp add: eval_nat_numeral)
lemma rep5: "replicate (5 + n + k) (0::byte) = 0 # 0 # 0 # 0 # 0 # replicate (n + k) 0"
  by (simp add: eval_nat_numeral)

lemma enc_isOn_at:
  assumes "w_array s = pre @ replicate (length (b_isOn m) + k) 0" "w_offset s = length pre"
  shows "enc_isOn m s = Inr \<lparr>w_array = (pre @ b_isOn m) @ replicate k 0,
           w_offset = length (pre @ b_isOn m),
           w_flags = w_flags s OR (if isOn m \<noteq> None then ON_OFF else 0)\<rparr>"
  using assms
  by (cases "isOn m") (simp_all add: enc_isOn_def b_isOn_def bindE_def setUint8_at)

lemma enc_brightness_at:
  assumes "w_array s = pre @ replicate (length (b_brightness m) + k) 0" "w_offset s = length pre"
    and "\<forall>b. brightness m = Some b \<longrightarrow> \<not> js_less b (Finite 1) \<and> \<not> js_less (Finite 254) b"
  shows "enc_brightness m s = Inr \<lparr>w_array = (pre @ b_brightness m) @ replicate k 0,
           w_offset = length (pre @ b_brightness m),
           w_flags = w_flags s OR (if brightness m \<noteq> None then BRIGHTNESS else 0)\<rparr>"
  using assms
  by (cases "brightness m") (auto simp add: enc_brightness_def b_brightness_def bindE_def setUint8_at)

lemma enc_colorTemp_at:
  assumes "w_array s = pre @ replicate (length (b_colorTemp m) + k) 0" "w_offset s = length pre"
  shows "enc_colorTemp m s = Inr \<lparr>w_array = (pre @ b_colorTemp m) @ replicate k 0,
           w_offset = length (pre @ b_colorTemp m),
           w_flags = w_flags s OR (if colorTemp m \<noteq> None then COLOR_MIRED else 0)\<rparr>"
  using assms
  by (cases "colorTemp m")
     (simp_all add: enc_colorTemp_def b_colorTemp_def bindE_def length_u16le rep2 setUint16_at)

lemma enc_colorXY_at:
  assumes "w_array s = pre @ replicate (length (b_colorXY m) + k) 0" "w_offset s = length pre"
  shows "enc_colorXY m s = Inr \<lparr>w_array = (pre @ b_colorXY m) @ replicate k 0,
           w_offset = length (pre @ b_colorXY m),
           w_flags = w_flags s OR (if colorXY m \<noteq> None then COLOR_XY else 0)\<rparr>"
proof (cases "colorXY m")
  case None
  with assms show ?thesis by (simp add: enc_colorXY_def b_colorXY_def)
next
  case (Some c)
  let ?bx = "u16le (js_trunc (fl (cx c * 0xffff)))" and ?by = "u16le (js_trunc (fl (cy c * 0xffff)))"
  have a: "w_array s = pre @ 0 # 0 # 0 # 0 # replicate k 0"
    using assms(1) Some by (simp add: b_colorXY_def length_u16le rep4)
  have 1: "setUint16 (w_array s) (w_offset s) (js_trunc (fl (cx c * 0xffff))) = Inr (pre @ ?bx @ 0 # 0 # replicate k 0)"
    unfolding a using assms(2) by (simp add: setUint16_at)
  have 2: "setUint16 ((pre @ ?bx) @ 0 # 0 # replicate k 0) (w_offset s + 2) (js_trunc (fl (cy c * 0xffff)))
      = Inr ((pre @ ?bx) @ ?by @ replicate k 0)"
    using assms(2) by (intro setUint16_at) (simp add: length_u16le)
  show ?thesis
    using Some 1 2 assms(2) by (simp add: enc_colorXY_def b_colorXY_def bindE_def length_u16le)
qed

lemma enc_transitionTime_at:
  assumes "w_array s = pre @ replicate (length (b_transitionTime m) + k) 0" "w_offset s = length pre"
  shows "enc_transitionTime m s = Inr \<lparr>w_array = (pre @ b_transitionTime m) @ replicate k 0,
           w_offset = length (pre @ b_transitionTime m),
           w_flags = w_flags s OR (if transitionTime m \<noteq> None then TRANSITION_TIME else 0)\<rparr>"
  using assms
  by (cases "transitionTime m")
     (simp_all add: enc_transitionTime_def b_transitionTime_def bindE_def length_u16le rep2 setUint16_at)

lemma enc_effect_at:
  assumes "w_array s = pre @ replicate (length (b_effect m) + k) 0" "w_offset s = length pre"
  shows "enc_effect m s = Inr \<lparr>w_array = (pre @ b_effect m) @ replicate k 0,
           w_offset = length (pre @ b_effect m),
           w_flags = w_flags s OR (if effect m \<noteq> None then EFFECT else 0)\<rparr>"
  using assms
  by (cases "effect m") (simp_all add: enc_effect_def b_effect_def bindE_def setUint8_at)

lemma enc_effectSpeed_at:
  assumes "w_array s = pre @ replicate (length (b_effectSpeed m) + k) 0" "w_offset s = length pre"
  shows "enc_effectSpeed m s = Inr \<lparr>w_array = (pre @ b_effectSpeed m) @ replicate k 0,
           w_offset = length (pre @ b_effectSpeed m),
           w_flags = w_flags s OR (if effectSpeed m \<noteq> None then EFFECT_SPEED else 0)\<rparr>"
  using assms
  by (cases "effectSpeed m") (simp_all add: enc_effectSpeed_def b_effectSpeed_def bindE_def setUint8_at)

lemma enc_gradientParams_at:
  assumes "w_array s = pre @ replicate (length (b_gradientParams m) + k) 0" "w_offset s = length pre"
  shows "enc_gradientParams m s = Inr \<lparr>w_array = (pre @ b_gradientParams m) @ replicate k 0,
           w_offset = length (pre @ b_gradientParams m),
           w_flags = w_flags s OR (if gradientParams m \<noteq> None then GRADIENT_PARAMS else 0)\<rparr>"
proof (cases "gradientParams m")
  case None
  with assms show ?thesis by (simp add: enc_gradientParams_def b_gradientParams_def)
next
  case (Some p)
  let ?a = "ToUint8 (js_trunc (fl (scale p * 8)))" and ?b = "ToUint8 (js_trunc (fl (offset p * 8)))"
  have a: "w_array s = pre @ 0 # 0 # replicate k 0"
    using assms(1) Some by (simp add: b_gradientParams_def rep2)
  have 1: "setUint8 (w_array s) (w_offset s) (js_trunc (fl (scale p * 8))) = Inr (pre @ ?a # 0 # replicate k 0)"
    unfolding a using assms(2) by (simp add: setUint8_at)
  have 2: "setUint8 ((pre @ [?a]) @ 0 # replicate k 0) (w_offset s + 1) (js_trunc (fl (offset p * 8)))
      = Inr ((pre @ [?a]) @ ?b # replicate k 0)"
    using assms(2) by (intro setUint8_at) simp
  show ?thesis
    using Some 1 2 assms(2) by (simp add: enc_gradientParams_def b_gradientParams_def bindE_def)
qed

lemma enc_gradient_at:
  assumes "w_array s = pre @ replicate (length (b_gradient m) + k) 0" "w_offset s = length pre"
  shows "enc_gradient m s = Inr \<lparr>w_array = (pre @ b_gradient m) @ replicate k 0,
           w_offset = length (pre @ b_gradient m),
           w_flags = w_flags s OR (if gradient m \<noteq> None then GRADIENT_COLORS else 0)\<rparr>"
proof (cases "gradient m")
  case None
  with assms show ?thesis by (simp add: enc_gradient_def b_gradient_def)
next
  case (Some g)
  let ?n = "length (colors g)"
  let ?b0 = "ToUint8 (4 + 3 * int ?n)" and ?b1 = "ToUint8 (push_bit 4 (int ?n))"
    and ?b2 = "ToUint8 (style g)"
  let ?z = "replicate (3 * ?n + k) (0::byte)"
  have "length (b_gradient m) + k = 5 + 3 * ?n + k"
    using Some by (simp add: b_gradient_def length_concat_color_bytes)
  then have a: "w_array s = pre @ 0 # 0 # 0 # 0 # 0 # ?z"
    using assms(1) by (simp only: rep5)
  have 1: "setUint8 (w_array s) (w_offset s) (4 + 3 * int ?n) = Inr (pre @ ?b0 # 0 # 0 # 0 # 0 # ?z)"
    unfolding a using assms(2) by (simp add: setUint8_at)
  have 2: "setUint8 ((pre @ [?b0]) @ 0 # 0 # 0 # 0 # ?z) (w_offset s + 1) (push_bit 4 (int ?n))
      = Inr ((pre @ [?b0]) @ ?b1 # 0 # 0 # 0 # ?z)"
    using assms(2) by (intro setUint8_at) simp
  have 3: "setUint8 ((pre @ [?b0, ?b1]) @ 0 # 0 # 0 # ?z) (w_offset s + 2) (style g)
      = Inr ((pre @ [?b0, ?b1]) @ ?b2 # 0 # 0 # ?z)"
    using assms(2) by (intro setUint8_at) simp
  have 4: "write_colors (colors g) ((pre @ [?b0, ?b1, ?b2, 0, 0]) @ ?z) (w_offset s + 5)
      = Inr ((pre @ [?b0, ?b1, ?b2, 0, 0]) @ concat (map color_bytes (colors g)) @ replicate k 0,
             (w_offset s + 5) + 3 * ?n)"
    using assms(2) by (intro write_colors_at) simp
  show ?thesis
    using Some 1 2 3 4 assms(2)
    by (simp add: enc_gradient_def b_gradient_def bindE_def Let_def length_concat_color_bytes)
qed

lemma length_b_gradient:
  "length (b_gradient m) = (case gradient m of None \<Rightarrow> 0 | Some g \<Rightarrow> 5 + 3 * length (colors g))"
  by (simp add: b_gradient_def length_concat_color_bytes split: option.splits)

lemma encodedLength_payload: "encodedLength m = 2 + length (payload m)"
  by (simp add: encodedLength_def payload_def b_isOn_def b_brightness_def b_colorTemp_def
      b_colorXY_def b_transitionTime_def b_effect_def length_b_gradient b_effectSpeed_def
      b_gradientParams_def length_u16le split: option.splits)

lemma write_fields_ok:
  assumes br: "\<forall>b. brightness m = Some b \<longrightarrow> \<not> js_less b (Finite 1) \<and> \<not> js_less (Finite 254) b"
  shows "write_fields m = Inr \<lparr>w_array = [0, 0] @ payload m, w_offset = encodedLength m,
           w_flags = flag_word m\<rparr>"
proof -
  let ?l9 = "length (b_gradientParams m) + 0"
  let ?l8 = "length (b_effectSpeed m) + ?l9"
  let ?l7 = "length (b_gradient m) + ?l8"
  let ?l6 = "length (b_effect m) + ?l7"
  let ?l5 = "length (b_transitionTime m) + ?l6"
  let ?l4 = "length (b_colorXY m) + ?l5"
  let ?l3 = "length (b_colorTemp m) + ?l4"
  let ?l2 = "length (b_brightness m) + ?l3"
  let ?l1 = "length (b_isOn m) + ?l2"
  let ?l10 = "0::nat"
  let ?p0 = "[0::byte, 0]"
  let ?p1 = "?p0 @ b_isOn m"
  let ?p2 = "?p1 @ b_brightness m"
  let ?p3 = "?p2 @ b_colorTemp m"
  let ?p4 = "?p3 @ b_colorXY m"
  let ?p5 = "?p4 @ b_transitionTime m"
  let ?p6 = "?p5 @ b_effect m"
  let ?p7 = "?p6 @ b_gradient m"
  let ?p8 = "?p7 @ b_effectSpeed m"
  let ?p9 = "?p8 @ b_gradientParams m"
  define s0 where "s0 = \<lparr>w_array = replicate (encodedLength m) 0, w_offset = 2, w_flags = 0\<rparr>"
  have "encodedLength m = 2 + ?l1"
    by (simp add: encodedLength_payload payload_def)
  then have a0: "w_array s0 = ?p0 @ replicate ?l1 0" and o0: "w_offset s0 = length ?p0"
    by (simp_all add: s0_def rep2)
  define s1 where "s1 = \<lparr>w_array = ?p1 @ replicate ?l2 0, w_offset = length ?p1,
      w_flags = w_flags s0 OR (if isOn m \<noteq> None then ON_OFF else 0)\<rparr>"
  have e1: "enc_isOn m s0 = Inr s1"
    unfolding s1_def by (rule enc_isOn_at [OF a0 o0])
  have a1: "w_array s1 = ?p1 @ replicate ?l2 0" and o1: "w_offset s1 = length ?p1"
    by (simp_all add: s1_def)
  define s2 where "s2 = \<lparr>w_array = ?p2 @ replicate ?l3 0, w_offset = length ?p2,
      w_flags = w_flags s1 OR (if brightness m \<noteq> None then BRIGHTNESS else 0)\<rparr>"
  have e2: "enc_brightness m s1 = Inr s2"
    unfolding s2_def by (rule enc_brightness_at [OF a1 o1 br])
  have a2: "w_array s2 = ?p2 @ replicate ?l3 0" and o2: "w_offset s2 = length ?p2"
    by (simp_all add: s2_def)
  define s3 where "s3 = \<lparr>w_array = ?p3 @ replicate ?l4 0, w_offset = length ?p3,
      w_flags = w_flags s2 OR (if colorTemp m \<noteq> None then COLOR_MIRED else 0)\<rparr>"
  have e3: "enc_colorTemp m s2 = Inr s3"
    unfolding s3_def by (rule enc_colorTemp_at [OF a2 o2])
  have a3: "w_array s3 = ?p3 @ replicate ?l4 0" and o3: "w_offset s3 = length ?p3"
    by (simp_all add: s3_def)
  define s4 where "s4 = \<lparr>w_array = ?p4 @ replicate ?l5 0, w_offset = length ?p4,
      w_flags = w_flags s3 OR (if colorXY m \<noteq> None then COLOR_XY else 0)\<rparr>"
  have e4: "enc_colorXY m s3 = Inr s4"
    unfolding s4_def by (rule enc_colorXY_at [OF a3 o3])
  have a4: "w_array s4 = ?p4 @ replicate ?l5 0" and o4: "w_offset s4 = length ?p4"
    by (simp_all add: s4_def)
  define s5 where "s5 = \<lparr>w_array = ?p5 @ replicate ?l6 0, w_offset = length ?p5,
      w_flags = w_flags s4 OR (if transitionTime m \<noteq> None then TRANSITION_TIME else 0)\<rparr>"
  have e5: "enc_transitionTime m s4 = Inr s5"
    unfolding s5_def by (rule enc_transitionTime_at [OF a4 o4])
  have a5: "w_array s5 = ?p5 @ replicate ?l6 0" and o5: "w_offset s5 = length ?p5"
    by (simp_all add: s5_def)
  define s6 where "s6 = \<lparr>w_array = ?p6 @ replicate ?l7 0, w_offset = length ?p6,
      w_flags = w_flags s5 OR (if effect m \<noteq> None then EFFECT else 0)\<rparr>"
  have e6: "enc_effect m s5 = Inr s6"
    unfolding s6_def by (rule enc_effect_at [OF a5 o5])
  have a6: "w_array s6 = ?p6 @ replicate ?l7 0" and o6: "w_offset s6 = length ?p6"
    by (simp_all add: s6_def)
  define s7 where "s7 = \<lparr>w_array = ?p7 @ replicate ?l8 0, w_offset = length ?p7,
      w_flags = w_flags s6 OR (if gradient m \<noteq> None then GRADIENT_COLORS else 0)\<rparr>"
  have e7: "enc_gradient m s6 = Inr s7"
    unfolding s7_def by (rule enc_gradient_at [OF a6 o6])
  have a7: "w_array s7 = ?p7 @ replicate ?l8 0" and o7: "w_offset s7 = length ?p7"
    by (simp_all add: s7_def)
  define s8 where "s8 = \<lparr>w_array = ?p8 @ replicate ?l9 0, w_offset = length ?p8,
      w_flags = w_flags s7 OR (if effectSpeed m \<noteq> None then EFFECT_SPEED else 0)\<rparr>"
  have e8: "enc_effectSpeed m s7 = Inr s8"
    unfolding s8_def by (rule enc_effectSpeed_at [OF a7 o7])
  have a8: "w_array s8 = ?p8 @ replicate ?l9 0" and o8: "w_offset s8 = length ?p8"
    by (simp_all add: s8_def)
  define s9 where "s9 = \<lparr>w_array = ?p9 @ replicate ?l10 0, w_offset = length ?p9,
      w_flags = w_flags s8 OR (if gradientParams m \<noteq> None then GRADIENT_PARAMS else 0)\<rparr>"
  have e9: "enc_gradientParams m s8 = Inr s9"
    unfolding s9_def by (rule enc_gradientParams_at [OF a8 o8])
  have a9: "w_array s9 = ?p9 @ replicate ?l10 0" and o9: "w_offset s9 = length ?p9"
    by (simp_all add: s9_def)
  have f: "w_flags s9 = flag_word m"
    unfolding s9_def s8_def s7_def s6_def s5_def s4_def s3_def s2_def s1_def s0_def flag_word_def
    by (simp only: writer.select_convs or.assoc or.left_neutral)
  have "write_fields m = Inr s9"
    unfolding write_fields_def s0_def[symmetric] by (simp add: e1 e2 e3 e4 e5 e6 e7 e8 e9)
  moreover have "s9 = \<lparr>w_array = [0, 0] @ payload m, w_offset = encodedLength m, w_flags = flag_word m\<rparr>"
    using f by (simp add: s9_def payload_def encodedLength_payload)
  ultimately show ?thesis by simp
qed

lemma write_fields_bad:
  assumes "brightness m = Some b" "js_less b (Finite 1) \<or> js_less (Finite 254) b"
  shows "write_fields m = Inl BrightnessRange"
proof -
  define s0 where "s0 = \<lparr>w_array = replicate (encodedLength m) 0, w_offset = 2, w_flags = 0\<rparr>"
  have "encodedLength m = 2 + (length (b_isOn m) + (encodedLength m - 2 - length (b_isOn m)))"
    by (simp add: encodedLength_payload payload_def)
  then have "replicate (encodedLength m) (0::byte)
      = [0, 0] @ replicate (length (b_isOn m) + (encodedLength m - 2 - length (b_isOn m))) 0"
    by (metis append_Cons append_Nil rep2)
  then have a0: "w_array s0 = [0, 0] @ replicate (length (b_isOn m) + (encodedLength m - 2 - length (b_isOn m))) 0"
    and o0: "w_offset s0 = length [0::byte, 0]"
    by (simp_all add: s0_def)
  note e1 = enc_isOn_at [OF a0 o0]
  have "enc_brightness m s = Inl BrightnessRange" for s
    using assms by (auto simp add: enc_brightness_def)
  then show ?thesis
    unfolding write_fields_def s0_def[symmetric] by (simp add: e1)
qed

lemma toBytes_ok:
  assumes "\<forall>b. brightness m = Some b \<longrightarrow> \<not> js_less b (Finite 1) \<and> \<not> js_less (Finite 254) b"
  shows "toBytes m = Inr (u16le (flag_word m) @ payload m)"
proof -
  have "setUint16 ([] @ 0 # 0 # payload m) 0 (flag_word m) = Inr ([] @ u16le (flag_word m) @ payload m)"
    by (rule setUint16_at) simp
  then show ?thesis
    by (simp add: toBytes_def write_fields_ok [OF assms] bindE_def)
qed

lemma toBytes_bad:
  assumes "brightness m = Some b" "js_less b (Finite 1) \<or> js_less (Finite 254) b"
  shows "toBytes m = Inl BrightnessRange"
  by (simp add: toBytes_def write_fields_bad [OF assms] bindE_def)

lemma flag_test: "(f AND push_bit k 1 \<noteq> 0) = bit f k" for f :: int
  by (simp add: push_bit_eq_mult and_exp_eq_0_iff_not_bit)

lemma bit_flag_if: "bit (if c then push_bit j 1 else (0::int)) k = (c \<and> j = k)"
  by (auto simp add: push_bit_eq_mult bit_exp_iff)

lemma bit_flag_word:
  "bit (flag_word m) k =
     (isOn m \<noteq> None \<and> k = 0 \<or> brightness m \<noteq> None \<and> k = 1 \<or> colorTemp m \<noteq> None \<and> k = 2 \<or>
      colorXY m \<noteq> None \<and> k = 3 \<or> transitionTime m \<noteq> None \<and> k = 4 \<or> effect m \<noteq> None \<and> k = 5 \<or>
      gradientParams m \<noteq> None \<and> k = 6 \<or> effectSpeed m \<noteq> None \<and> k = 7 \<or> gradient m \<noteq> None \<and> k = 8)"
  unfolding flag_word_def ON_OFF_def BRIGHTNESS_def COLOR_MIRED_def COLOR_XY_def TRANSITION_TIME_def
    EFFECT_def GRADIENT_PARAMS_def EFFECT_SPEED_def GRADIENT_COLORS_def bit_or_iff bit_flag_if
  by blast

lemma flag_word_tests:
  "(flag_word m AND ON_OFF \<noteq> 0) = (isOn m \<noteq> None)"
  "(flag_word m AND BRIGHTNESS \<noteq> 0) = (brightness m \<noteq> None)"
  "(flag_word m AND COLOR_MIRED \<noteq> 0) = (colorTemp m \<noteq> None)"
  "(flag_word m AND COLOR_XY \<noteq> 0) = (colorXY m \<noteq> None)"
  "(flag_word m AND TRANSITION_TIME \<noteq> 0) = (transitionTime m \<noteq> None)"
  "(flag_word m AND EFFECT \<noteq> 0) = (effect m \<noteq> None)"
  "(flag_word m AND GRADIENT_PARAMS \<noteq> 0) = (gradientParams m \<noteq> None)"
  "(flag_word m AND EFFECT_SPEED \<noteq> 0) = (effectSpeed m \<noteq> None)"
  "(flag_word m AND GRADIENT_COLORS \<noteq> 0) = (gradient m \<noteq> None)"
  unfolding ON_OFF_def BRIGHTNESS_def COLOR_MIRED_def COLOR_XY_def TRANSITION_TIME_def
    EFFECT_def GRADIENT_PARAMS_def EFFECT_SPEED_def GRADIENT_COLORS_def flag_test bit_flag_word
  by simp_all

lemma flag_word_take_bit: "take_bit 9 (flag_word m) = flag_word m"
proof (rule bit_eqI)
  fix k
  have "k < 9" if "bit (flag_word m) k"
    using that unfolding bit_flag_word by (elim disjE conjE) simp_all
  then show "bit (take_bit 9 (flag_word m)) k = bit (flag_word m) k"
    unfolding bit_take_bit_iff by blast
qed

lemma flag_word_range: "0 \<le> flag_word m" "flag_word m < 512"
proof -
  have "0 \<le> take_bit 9 (flag_word m)" "take_bit 9 (flag_word m) < 512"
    using take_bit_int_less_exp [of 9 "flag_word m"] by simp_all
  then show "0 \<le> flag_word m" "flag_word m < 512"
    by (simp_all add: flag_word_take_bit)
qed

lemma getUint16_u16le:
  "length pre = off \<Longrightarrow> getUint16 (pre @ u16le v @ post) off = Inr (ToUint16 v)"
proof -
  define n where "n = ToUint16 v"
  have n: "0 \<le> n" "n < 65536" by (simp_all add: n_def ToUint16_def)
  have "n = 256 * (n div 256) + n mod 256" by simp
  with n have q: "0 \<le> n div 256" "n div 256 < 256" by linarith+
  have "uint (word_of_int (n mod 256) :: byte) + 256 * uint (word_of_int (n div 256) :: byte) = n"
    using q by (simp add: uint_word_of_int)
  then show ?thesis if "length pre = off"
    using that by (auto simp add: getUint16_def u16le_def n_def[symmetric] nth_append)
qed

lemma getUint8_at:
  "length pre = off \<Longrightarrow> getUint8 (pre @ b # post) off = Inr (uint b)"
  by (auto simp add: getUint8_def)

section \<open>Brightness check and the length invariant of \<open>toBytes\<close>\<close>

text \<open>
  The range check of \<open>toBytes\<close> on every number: a brightness below 1 or above 254, finite
  or infinite, throws the \<open>RangeError\<close>; every other brightness is written.
\<close>

lemma toBytes_brightness_check:
  assumes "brightness m = Some b"
  shows "js_less b (Finite 1) \<or> js_less (Finite 254) b \<Longrightarrow> toBytes m = Inl BrightnessRange"
    and "\<not> js_less b (Finite 1) \<Longrightarrow> \<not> js_less (Finite 254) b \<Longrightarrow>
           toBytes m = Inr (u16le (flag_word m) @ payload m)"
proof -
  show "toBytes m = Inl BrightnessRange" if "js_less b (Finite 1) \<or> js_less (Finite 254) b"
    using assms that by (rule toBytes_bad)
  show "toBytes m = Inr (u16le (flag_word m) @ payload m)"
    if "\<not> js_less b (Finite 1)" "\<not> js_less (Finite 254) b"
    using assms that by (intro toBytes_ok) simp
qed

lemma toBytes_brightness_finite:
  assumes "brightness m = Some (Finite r)"
  shows "toBytes m = Inl BrightnessRange \<longleftrightarrow> r < 1 \<or> 254 < r"
    and "(\<exists>bs. toBytes m = Inr bs) \<longleftrightarrow> 1 \<le> r \<and> r \<le> 254"
  using toBytes_brightness_check [OF assms] by (cases "r < 1 \<or> 254 < r"; auto)+

lemma toBytes_brightness_infinite:
  "brightness m = Some PosInfinity \<or> brightness m = Some NegInfinity \<Longrightarrow>
   toBytes m = Inl BrightnessRange"
  using toBytes_brightness_check(1) [of m PosInfinity] toBytes_brightness_check(1) [of m NegInfinity]
  by auto

text \<open>
  C6. The check \<open>brightness < 1 || brightness > 254\<close> is false on both sides for NaN,
  which is outside 1 to 254: \<open>toBytes\<close> of a message whose brightness is NaN throws no
  \<open>RangeError\<close> and returns the buffer \<open>02 00 00\<close>, the brightness flag and the
  brightness byte 0. (For every other number the check does what its message says, by the
  three lemmas above.)
\<close>

theorem toBytes_brightness_NaN:
  "toBytes (new_message\<lparr>brightness := Some NaN\<rparr>) = Inr [0x02, 0x00, 0x00]
   \<and> toBytes (new_message\<lparr>brightness := Some NaN\<rparr>) \<noteq> Inl BrightnessRange
   \<and> toBytes (new_message\<lparr>brightness := Some (Finite 0)\<rparr>) = Inl BrightnessRange
   \<and> toBytes (new_message\<lparr>brightness := Some (Finite 255)\<rparr>) = Inl BrightnessRange
   \<and> toBytes (new_message\<lparr>brightness := Some (Finite 1)\<rparr>) = Inr [0x02, 0x00, 0x01]"
proof -
  have f: "flag_word (new_message\<lparr>brightness := Some b\<rparr>) = 2" for b
    by (simp add: flag_word_def new_message_def BRIGHTNESS_def)
  have u: "u16le 2 = [0x02, 0x00]"
    by (simp add: u16le_def ToUint16_def)
  have p: "payload (new_message\<lparr>brightness := Some b\<rparr>) = [ToUint8 (ToIntegerOrZero b)]" for b
    by (simp add: payload_def new_message_def b_isOn_def b_brightness_def b_colorTemp_def
        b_colorXY_def b_transitionTime_def b_effect_def b_gradient_def b_effectSpeed_def
        b_gradientParams_def)
  have n: "toBytes (new_message\<lparr>brightness := Some NaN\<rparr>) = Inr [0x02, 0x00, 0x00]"
    using toBytes_brightness_check(2) [of "new_message\<lparr>brightness := Some NaN\<rparr>" NaN]
    by (simp add: f u p ToUint8_def)
  have o: "toBytes (new_message\<lparr>brightness := Some (Finite 1)\<rparr>) = Inr [0x02, 0x00, 0x01]"
    using toBytes_brightness_check(2) [of "new_message\<lparr>brightness := Some (Finite 1)\<rparr>" "Finite 1"]
    by (simp add: f u p ToUint8_def js_trunc_def)
  have z: "toBytes (new_message\<lparr>brightness := Some (Finite 0)\<rparr>) = Inl BrightnessRange"
    using toBytes_brightness_check(1) [of "new_message\<lparr>brightness := Some (Finite 0)\<rparr>" "Finite 0"]
    by simp
  have h: "toBytes (new_message\<lparr>brightness := Some (Finite 255)\<rparr>) = Inl BrightnessRange"
    using toBytes_brightness_check(1) [of "new_message\<lparr>brightness := Some (Finite 255)\<rparr>" "Finite 255"]
    by simp
  show ?thesis using n o z h by simp
qed

text \<open>
  C8. For every message that passes the brightness check (brightness unset, or neither
  below 1 nor above 254), the attribute blocks of \<open>toBytes\<close> succeed and leave the write
  offset exactly at the precomputed \<open>encodedLength\<close>, which is also the length of the
  buffer and of the result. On no message at all does \<open>toBytes\<close> throw the "Invariant"
  error, nor does a write fall outside the buffer.
\<close>

theorem toBytes_offset_invariant:
  "toBytes m \<noteq> Inl InvariantLength \<and> toBytes m \<noteq> Inl OutOfBounds \<and>
   ((\<forall>b. brightness m = Some b \<longrightarrow> \<not> js_less b (Finite 1) \<and> \<not> js_less (Finite 254) b) \<longrightarrow>
      (\<exists>s. write_fields m = Inr s \<and> w_offset s = encodedLength m
           \<and> length (w_array s) = encodedLength m) \<and>
      (\<exists>bs. toBytes m = Inr bs \<and> length bs = encodedLength m))"
proof (cases "\<forall>b. brightness m = Some b \<longrightarrow> \<not> js_less b (Finite 1) \<and> \<not> js_less (Finite 254) b")
  case True
  have "write_fields m = Inr \<lparr>w_array = [0, 0] @ payload m, w_offset = encodedLength m,
           w_flags = flag_word m\<rparr>"
    using True by (rule write_fields_ok)
  moreover have "toBytes m = Inr (u16le (flag_word m) @ payload m)"
    using True by (rule toBytes_ok)
  ultimately show ?thesis
    using True by (simp add: length_u16le encodedLength_payload)
next
  case False
  then obtain b where "brightness m = Some b" "js_less b (Finite 1) \<or> js_less (Finite 254) b" by auto
  then have "toBytes m = Inl BrightnessRange" by (rule toBytes_bad)
  with False show ?thesis by simp
qed

theorem toBytes_offset_invariant_witness:
  "(\<exists>s. write_fields (new_message\<lparr>isOn := Some True, brightness := Some (Finite 127)\<rparr>) = Inr s
        \<and> w_offset s = 4 \<and> length (w_array s) = 4) \<and>
   (\<exists>bs. toBytes (new_message\<lparr>isOn := Some True, brightness := Some (Finite 127)\<rparr>) = Inr bs
        \<and> length bs = 4)"
proof -
  have "encodedLength (new_message\<lparr>isOn := Some True, brightness := Some (Finite 127)\<rparr>) = 4"
    by (simp add: encodedLength_def new_message_def)
  then show ?thesis
    using toBytes_offset_invariant [of "new_message\<lparr>isOn := Some True, brightness := Some (Finite 127)\<rparr>"]
    by simp
qed

section \<open>What \<open>fromBytes\<close> reads\<close>

lemma bit_single: "bit (push_bit j 1 :: int) k = (j = k)"
  using bit_flag_if [of True j k] by simp

lemma and_single_bit: "f AND push_bit k 1 = (if bit f k then push_bit k 1 else 0)" for f :: int
proof (cases "bit f k")
  case True
  have "f AND push_bit k 1 = push_bit k 1"
    by (rule bit_eqI) (use True in \<open>auto simp add: bit_and_iff bit_exp_iff\<close>)
  with True show ?thesis by simp
next
  case False
  have "f AND push_bit k 1 = 0"
    by (rule bit_eqI) (use False in \<open>auto simp add: bit_and_iff bit_exp_iff\<close>)
  with False show ?thesis by simp
qed

lemma flag_word_eqI:
  assumes "\<And>k. bit (flag_word r') k = (bit (flag_word r) k \<or> j = k)"
  shows "flag_word r' = flag_word r OR push_bit j 1"
proof (rule bit_eqI)
  fix k
  show "bit (flag_word r') k = bit (flag_word r OR push_bit j 1) k"
    unfolding bit_or_iff bit_single by (rule assms)
qed

lemma flag_word_isOn: "flag_word (r\<lparr>isOn := Some v\<rparr>) = flag_word r OR ON_OFF"
  unfolding ON_OFF_def by (rule flag_word_eqI) (simp add: bit_flag_word, blast)
lemma flag_word_brightness: "flag_word (r\<lparr>brightness := Some v\<rparr>) = flag_word r OR BRIGHTNESS"
  unfolding BRIGHTNESS_def by (rule flag_word_eqI) (simp add: bit_flag_word, blast)
lemma flag_word_colorTemp: "flag_word (r\<lparr>colorTemp := Some v\<rparr>) = flag_word r OR COLOR_MIRED"
  unfolding COLOR_MIRED_def by (rule flag_word_eqI) (simp add: bit_flag_word, blast)
lemma flag_word_colorXY: "flag_word (r\<lparr>colorXY := Some v\<rparr>) = flag_word r OR COLOR_XY"
  unfolding COLOR_XY_def by (rule flag_word_eqI) (simp add: bit_flag_word, blast)
lemma flag_word_transitionTime: "flag_word (r\<lparr>transitionTime := Some v\<rparr>) = flag_word r OR TRANSITION_TIME"
  unfolding TRANSITION_TIME_def by (rule flag_word_eqI) (simp add: bit_flag_word, blast)
lemma flag_word_effect: "flag_word (r\<lparr>effect := Some v\<rparr>) = flag_word r OR EFFECT"
  unfolding EFFECT_def by (rule flag_word_eqI) (simp add: bit_flag_word, blast)
lemma flag_word_gradient: "flag_word (r\<lparr>gradient := Some v\<rparr>) = flag_word r OR GRADIENT_COLORS"
  unfolding GRADIENT_COLORS_def by (rule flag_word_eqI) (simp add: bit_flag_word, blast)
lemma flag_word_effectSpeed: "flag_word (r\<lparr>effectSpeed := Some v\<rparr>) = flag_word r OR EFFECT_SPEED"
  unfolding EFFECT_SPEED_def by (rule flag_word_eqI) (simp add: bit_flag_word, blast)
lemma flag_word_gradientParams: "flag_word (r\<lparr>gradientParams := Some v\<rparr>) = flag_word r OR GRADIENT_PARAMS"
  unfolding GRADIENT_PARAMS_def by (rule flag_word_eqI) (simp add: bit_flag_word, blast)

lemmas flag_word_updates = flag_word_isOn flag_word_brightness flag_word_colorTemp flag_word_colorXY
  flag_word_transitionTime flag_word_effect flag_word_gradient flag_word_effectSpeed
  flag_word_gradientParams

lemma flag_and_set: "f AND push_bit k 1 \<noteq> 0 \<Longrightarrow> f AND push_bit k 1 = push_bit k 1" for f :: int
  unfolding and_single_bit by (simp split: if_splits)

lemma flag_and_clear: "\<not> f AND push_bit k 1 \<noteq> 0 \<Longrightarrow> r OR (f AND push_bit k 1) = r" for f r :: int
  by simp

lemma reads_isOn: "reads data (if flags AND ON_OFF \<noteq> 0 then 1 else 0) (flags AND ON_OFF) (dec_isOn flags data)"
  unfolding reads_def dec_isOn_def
  by (auto simp add: getUint8_def bindE_def flag_word_isOn flag_and_set [of flags 0, folded ON_OFF_def])


lemma reads_brightness:
  "reads data (if flags AND BRIGHTNESS \<noteq> 0 then 1 else 0) (flags AND BRIGHTNESS) (dec_brightness flags data)"
  unfolding reads_def dec_brightness_def
  by (auto simp add: getUint8_def bindE_def flag_word_brightness flag_and_set [of flags 1, folded BRIGHTNESS_def])

lemma reads_colorTemp:
  "reads data (if flags AND COLOR_MIRED \<noteq> 0 then 2 else 0) (flags AND COLOR_MIRED) (dec_colorTemp flags data)"
  unfolding reads_def dec_colorTemp_def
  by (auto simp add: getUint16_def bindE_def flag_word_colorTemp flag_and_set [of flags 2, folded COLOR_MIRED_def])

lemma reads_colorXY:
  "reads data (if flags AND COLOR_XY \<noteq> 0 then 4 else 0) (flags AND COLOR_XY) (dec_colorXY flags data)"
  unfolding reads_def dec_colorXY_def
  by (auto simp add: getUint16_def bindE_def flag_word_colorXY flag_and_set [of flags 3, folded COLOR_XY_def])

lemma reads_transitionTime:
  "reads data (if flags AND TRANSITION_TIME \<noteq> 0 then 2 else 0) (flags AND TRANSITION_TIME)
     (dec_transitionTime flags data)"
  unfolding reads_def dec_transitionTime_def
  by (auto simp add: getUint16_def bindE_def flag_word_transitionTime
      flag_and_set [of flags 4, folded TRANSITION_TIME_def])

lemma reads_effect:
  "reads data (if flags AND EFFECT \<noteq> 0 then 1 else 0) (flags AND EFFECT) (dec_effect flags data)"
  unfolding reads_def dec_effect_def
  by (auto simp add: getUint8_def bindE_def flag_word_effect flag_and_set [of flags 5, folded EFFECT_def])

lemma reads_effectSpeed:
  "reads data (if flags AND EFFECT_SPEED \<noteq> 0 then 1 else 0) (flags AND EFFECT_SPEED)
     (dec_effectSpeed flags data)"
  unfolding reads_def dec_effectSpeed_def
  by (auto simp add: getUint8_def bindE_def flag_word_effectSpeed
      flag_and_set [of flags 7, folded EFFECT_SPEED_def])

lemma reads_gradientParams:
  "reads data (if flags AND GRADIENT_PARAMS \<noteq> 0 then 2 else 0) (flags AND GRADIENT_PARAMS)
     (dec_gradientParams flags data)"
  unfolding reads_def dec_gradientParams_def
  by (auto simp add: getUint8_def bindE_def flag_word_gradientParams
      flag_and_set [of flags 6, folded GRADIENT_PARAMS_def])

lemma reads_seq2:
  assumes f: "reads data n b f" and g: "reads data n' b' (seq_all gs)"
  shows "reads data (n + n') (b OR b') (seq_all (f # gs))"
  unfolding reads_def
proof (intro allI impI)
  fix r off
  assume le: "off \<le> length data"
  show "if off + (n + n') \<le> length data
        then \<exists>r'. seq_all (f # gs) (r, off) = Inr (r', off + (n + n')) \<and> flag_word r' = flag_word r OR (b OR b')
               \<and> gradient r' = gradient r
        else seq_all (f # gs) (r, off) = Inl OutOfBounds"
  proof (cases "off + n \<le> length data")
    case False
    then have "f (r, off) = Inl OutOfBounds" using f le by (simp add: reads_def)
    with False show ?thesis by simp
  next
    case True
    then obtain r1 where r1: "f (r, off) = Inr (r1, off + n)" "flag_word r1 = flag_word r OR b"
        "gradient r1 = gradient r"
      using f le unfolding reads_def by (metis (full_types))
    show ?thesis
    proof (cases "off + n + n' \<le> length data")
      case False
      then have "seq_all gs (r1, off + n) = Inl OutOfBounds"
        using g True unfolding reads_def by (metis (full_types))
      with False r1 show ?thesis by (simp add: add.assoc)
    next
      case t: True
      then obtain r2 where "seq_all gs (r1, off + n) = Inr (r2, off + n + n')"
          "flag_word r2 = flag_word r1 OR b'" "gradient r2 = gradient r1"
        using g True unfolding reads_def by (metis (full_types))
      with t r1 show ?thesis by (simp add: add.assoc or.assoc)
    qed
  qed
qed

lemma reads_nil: "reads data 0 0 (seq_all [])"
  by (simp add: reads_def)


lemma reads_head:
  "reads data (fixed_before flags)
     ((flags AND ON_OFF) OR ((flags AND BRIGHTNESS) OR ((flags AND COLOR_MIRED) OR
      ((flags AND COLOR_XY) OR ((flags AND TRANSITION_TIME) OR ((flags AND EFFECT) OR 0))))))
     (seq_all [dec_isOn flags data, dec_brightness flags data, dec_colorTemp flags data,
               dec_colorXY flags data, dec_transitionTime flags data, dec_effect flags data])"
  unfolding fixed_before_def
  by (intro reads_seq2 reads_nil reads_isOn reads_brightness reads_colorTemp reads_colorXY
      reads_transitionTime reads_effect)

lemma reads_tail:
  "reads data (fixed_after flags) ((flags AND EFFECT_SPEED) OR ((flags AND GRADIENT_PARAMS) OR 0))
     (seq_all [dec_effectSpeed flags data, dec_gradientParams flags data])"
  unfolding fixed_after_def
  by (intro reads_seq2 reads_nil reads_effectSpeed reads_gradientParams)

lemma seq_all_append:
  "seq_all (fs @ gs) s = (case seq_all fs s of Inl e \<Rightarrow> Inl e | Inr s' \<Rightarrow> seq_all gs s')"
  by (induction fs arbitrary: s) (auto split: sum.splits)

lemma read_colors_ok:
  "cs + 3 * n \<le> length data \<Longrightarrow>
   \<exists>cols. read_colors data cs (cs + 3 * n) = Inr cols \<and> length cols = n"
proof (induction n arbitrary: cs)
  case 0
  then show ?case by (simp add: read_colors.simps)
next
  case (Suc n)
  have sub: "subarray data cs 3 = Inr (take 3 (drop cs data))"
    using Suc.prems by (simp add: subarray_def)
  have len: "length (take 3 (drop cs data)) = 3"
    using Suc.prems by simp
  obtain sc where sc: "HueLightColorXYScaled_fromBytes (take 3 (drop cs data)) = Inr sc"
    using len by (simp add: HueLightColorXYScaled_fromBytes_def Let_def)
  have "cs + 3 + 3 * n \<le> length data" using Suc.prems by simp
  then obtain cols where cols: "read_colors data (cs + 3) (cs + 3 + 3 * n) = Inr cols" "length cols = n"
    using Suc.IH by blast
  have e: "cs + 3 * Suc n = cs + 3 + 3 * n" by simp
  show ?case
    unfolding e by (subst read_colors.simps) (simp add: sub sc cols)
qed

lemma dec_gradient_cases:
  "dec_gradient flags data (r, off) =
     (if flags AND GRADIENT_COLORS = 0 then Inr (r, off)
      else if length data \<le> off then Inl OutOfBounds
      else if nat (uint (data ! off)) < 4 then Inl GradientSizeTooSmall
      else if length data < off + nat (uint (data ! off)) + 1 then Inl GradientBeyondEnd
      else if nat (uint (data ! off)) < 4 + 3 * nat (drop_bit 4 (uint (data ! (off + 1))))
      then Inl GradientNotEnoughData
      else bindE (read_colors data (off + 5) (off + 5 + 3 * nat (drop_bit 4 (uint (data ! (off + 1))))))
             (\<lambda>cs. Inr (r\<lparr>gradient := Some \<lparr>style = uint (data ! (off + 2)), colors = cs\<rparr>\<rparr>,
                         off + nat (uint (data ! off)) + 1)))"
proof (cases "flags AND GRADIENT_COLORS = 0")
  case True
  then show ?thesis by (simp add: dec_gradient_def)
next
  case flag: False
  show ?thesis
  proof (cases "length data \<le> off")
    case True
    with flag show ?thesis by (simp add: dec_gradient_def getUint8_def bindE_def)
  next
    case inb: False
    define s where "s = unat (data ! off)"
    define c where "c = nat (drop_bit 4 (uint (data ! Suc off)))"
    have su: "uint (data ! off) = int s" by (simp add: s_def)
    have "0 \<le> drop_bit 4 (uint (data ! Suc off))"
      by (simp add: drop_bit_eq_div pos_imp_zdiv_nonneg_iff)
    then have cu: "drop_bit 4 (uint (data ! Suc off)) = int c" by (simp add: c_def)
    have c1: "(int s < 4) = (s < 4)" by linarith
    have c2: "(int off + int s + 1 > int (length data)) = (length data < off + s + 1)" by linarith
    have c3: "(int s < 4 + 3 * int c) = (s < 4 + 3 * c)" by linarith
    have g0: "getUint8 data off = Inr (int s)"
      using inb by (simp add: getUint8_def su)
    have ns: "nat (uint (data ! off)) = s" by (simp add: s_def)
    have nc: "nat (drop_bit 4 (uint (data ! (off + 1)))) = c" by (simp add: c_def)
    show ?thesis
    proof (cases "s < 4 \<or> length data < off + s + 1")
      case True
      then show ?thesis
        unfolding dec_gradient_def ns nc
        using flag inb by (auto simp add: g0 bindE_def c1 c2)
    next
      case False
      then have f: "\<not> s < 4" "\<not> length data < off + s + 1" by simp_all
      have g12: "getUint8 data (Suc off) = Inr (uint (data ! Suc off))"
        "getUint8 data (Suc (Suc off)) = Inr (uint (data ! Suc (Suc off)))"
        using f by (simp_all add: getUint8_def)
      show ?thesis
        unfolding dec_gradient_def ns nc
        using flag inb f
        by (simp add: g0 g12 bindE_def c1 c2 c3 Let_def cu mult.commute)
    qed
  qed
qed


lemma fromBytes_short: "length data < 2 \<Longrightarrow> fromBytes data = Inl OutOfBounds"
  by (simp add: fromBytes_def getUint16_def bindE_def)

lemma fromBytes_unfold:
  assumes "2 \<le> length data"
  shows "fromBytes data =
    (case seq_all [dec_isOn (flags_of data) data, dec_brightness (flags_of data) data,
                   dec_colorTemp (flags_of data) data, dec_colorXY (flags_of data) data,
                   dec_transitionTime (flags_of data) data, dec_effect (flags_of data) data]
            (new_message, 2) of
       Inl e \<Rightarrow> Inl e
     | Inr s1 \<Rightarrow>
        (case dec_gradient (flags_of data) data s1 of
           Inl e \<Rightarrow> Inl e
         | Inr s2 \<Rightarrow>
            (case seq_all [dec_effectSpeed (flags_of data) data, dec_gradientParams (flags_of data) data] s2 of
               Inl e \<Rightarrow> Inl e
             | Inr s3 \<Rightarrow> Inr (fst s3))))"
proof -
  have g: "getUint16 data 0 = Inr (flags_of data)"
    using assms by (simp add: getUint16_def flags_of_def)
  show ?thesis
    unfolding fromBytes_def g bindE_def
    by (simp split: sum.splits prod.splits)
qed


lemma flag_word_new_message: "flag_word new_message = 0"
  by (simp add: flag_word_def new_message_def)

lemma low_flags:
  "((f AND ON_OFF) OR ((f AND BRIGHTNESS) OR ((f AND COLOR_MIRED) OR
      ((f AND COLOR_XY) OR ((f AND TRANSITION_TIME) OR ((f AND EFFECT) OR 0))))))
   OR (f AND GRADIENT_COLORS)
   OR ((f AND EFFECT_SPEED) OR ((f AND GRADIENT_PARAMS) OR 0)) = f AND 511" for f :: int
proof (rule bit_eqI)
  fix n :: nat
  have m: "(511::int) = mask 9" by (simp add: mask_eq_exp_minus_1)
  have "n < 9 \<longleftrightarrow> n = 0 \<or> n = 1 \<or> n = 2 \<or> n = 3 \<or> n = 4 \<or> n = 5 \<or> n = 8 \<or> n = 7 \<or> n = 6"
    by arith
  then show "bit (((f AND ON_OFF) OR ((f AND BRIGHTNESS) OR ((f AND COLOR_MIRED) OR
      ((f AND COLOR_XY) OR ((f AND TRANSITION_TIME) OR ((f AND EFFECT) OR 0))))))
   OR (f AND GRADIENT_COLORS)
   OR ((f AND EFFECT_SPEED) OR ((f AND GRADIENT_PARAMS) OR 0))) n = bit (f AND 511) n"
    unfolding m ON_OFF_def BRIGHTNESS_def COLOR_MIRED_def COLOR_XY_def TRANSITION_TIME_def
      EFFECT_def GRADIENT_PARAMS_def EFFECT_SPEED_def GRADIENT_COLORS_def
      bit_or_iff bit_and_iff bit_single bit_mask_iff
    by auto
qed

lemma fromBytes_outcome:
  "case decode_outcome data of
     Some e \<Rightarrow> fromBytes data = Inl e
   | None \<Rightarrow> \<exists>m. fromBytes data = Inr m \<and> flag_word m = flags_of data AND 511 \<and>
       (if flags_of data AND GRADIENT_COLORS = 0 then gradient m = None
        else \<exists>g. gradient m = Some g \<and>
              style g = uint (data ! (gradient_offset (flags_of data) + 2)) \<and>
              length (colors g) = nat (drop_bit 4 (uint (data ! (gradient_offset (flags_of data) + 1)))))"
proof (cases "length data < 2")
  case True
  then show ?thesis by (simp add: decode_outcome_def fromBytes_short)
next
  case False
  then have len: "2 \<le> length data" by simp
  define flags where "flags = flags_of data"
  define goff where "goff = gradient_offset flags"
  define bh where "bh = ((flags AND ON_OFF) OR ((flags AND BRIGHTNESS) OR ((flags AND COLOR_MIRED) OR
      ((flags AND COLOR_XY) OR ((flags AND TRANSITION_TIME) OR ((flags AND EFFECT) OR 0))))))"
  define bt where "bt = ((flags AND EFFECT_SPEED) OR ((flags AND GRADIENT_PARAMS) OR 0))"
  define hd_steps where "hd_steps = [dec_isOn flags data, dec_brightness flags data,
      dec_colorTemp flags data, dec_colorXY flags data, dec_transitionTime flags data,
      dec_effect flags data]"
  define tl_steps where "tl_steps = [dec_effectSpeed flags data, dec_gradientParams flags data]"
  have rh: "reads data (fixed_before flags) bh (seq_all hd_steps)"
    unfolding bh_def hd_steps_def by (rule reads_head)
  have rt: "reads data (fixed_after flags) bt (seq_all tl_steps)"
    unfolding bt_def tl_steps_def by (rule reads_tail)
  have fb: "fromBytes data =
    (case seq_all hd_steps (new_message, 2) of Inl e \<Rightarrow> Inl e
     | Inr s1 \<Rightarrow> (case dec_gradient flags data s1 of Inl e \<Rightarrow> Inl e
         | Inr s2 \<Rightarrow> (case seq_all tl_steps s2 of Inl e \<Rightarrow> Inl e | Inr s3 \<Rightarrow> Inr (fst s3))))"
    unfolding hd_steps_def tl_steps_def flags_def by (rule fromBytes_unfold [OF len])
  define s where "s = nat (uint (data ! goff))"
  define c where "c = nat (drop_bit 4 (uint (data ! (goff + 1))))"
  have do: "decode_outcome data =
     (if length data < goff then Some OutOfBounds
      else if flags AND GRADIENT_COLORS = 0
      then (if length data < goff + fixed_after flags then Some OutOfBounds else None)
      else if length data \<le> goff then Some OutOfBounds
      else if s < 4 then Some GradientSizeTooSmall
      else if length data < goff + s + 1 then Some GradientBeyondEnd
      else if s < 4 + 3 * c then Some GradientNotEnoughData
      else if length data < goff + s + 1 + fixed_after flags then Some OutOfBounds
      else None)"
    unfolding decode_outcome_def Let_def flags_def[symmetric] goff_def[symmetric]
      s_def[symmetric] c_def[symmetric]
    using False by (simp only: if_False)
  show ?thesis
  proof (cases "length data < goff")
    case True
    then have "seq_all hd_steps (new_message, 2) = Inl OutOfBounds"
      using rh len unfolding reads_def goff_def gradient_offset_def
      by (metis (full_types) not_le)
    then have "fromBytes data = Inl OutOfBounds" by (simp add: fb)
    moreover have "decode_outcome data = Some OutOfBounds"
      using True len by (simp add: do)
    ultimately show ?thesis by simp
  next
    case head_ok: False
    then have "2 + fixed_before flags \<le> length data"
      by (simp add: goff_def gradient_offset_def)
    then obtain r1 where r1: "seq_all hd_steps (new_message, 2) = Inr (r1, goff)"
        "flag_word r1 = bh" "gradient r1 = None"
      using rh len unfolding reads_def goff_def gradient_offset_def
      by (metis (full_types) flag_word_new_message or.left_neutral
          HueLightUpdateMessage.select_convs(8) new_message_def)
    have goff_le: "goff \<le> length data" using head_ok by simp
    have tail: "if off + fixed_after flags \<le> length data
        then \<exists>r'. seq_all tl_steps (r, off) = Inr (r', off + fixed_after flags) \<and>
               flag_word r' = flag_word r OR bt \<and> gradient r' = gradient r
        else seq_all tl_steps (r, off) = Inl OutOfBounds" if "off \<le> length data" for r off
      using rt that unfolding reads_def by blast
    show ?thesis
    proof (cases "flags AND GRADIENT_COLORS = 0")
      case nograd: True
      have g: "dec_gradient flags data (r1, goff) = Inr (r1, goff)"
        using nograd by (simp add: dec_gradient_cases)
      have lf: "bh OR bt = flags AND 511"
        using low_flags [of flags] nograd by (simp add: bh_def bt_def)
      show ?thesis
      proof (cases "length data < goff + fixed_after flags")
        case True
        then have "seq_all tl_steps (r1, goff) = Inl OutOfBounds"
          using tail [OF goff_le, of r1] by simp
        then have "fromBytes data = Inl OutOfBounds" by (simp add: fb r1 g)
        moreover have "decode_outcome data = Some OutOfBounds"
          using True len head_ok nograd
          by (simp add: do)
        ultimately show ?thesis by simp
      next
        case False
        then obtain r3 where r3: "seq_all tl_steps (r1, goff) = Inr (r3, goff + fixed_after flags)"
            "flag_word r3 = flag_word r1 OR bt" "gradient r3 = gradient r1"
          using tail [OF goff_le, of r1] by auto
        have "fromBytes data = Inr r3" by (simp add: fb r1 g r3)
        moreover have "decode_outcome data = None"
          using False len head_ok nograd
          by (simp add: do)
        ultimately show ?thesis
          using r3 r1 lf nograd by (simp add: flags_def[symmetric])
      qed
    next
      case grad: False
      note gc = dec_gradient_cases [of flags data r1 goff, folded s_def c_def]
      have lf: "bh OR (flags AND GRADIENT_COLORS) OR bt = flags AND 511"
        using low_flags [of flags] by (simp add: bh_def bt_def)
      have fg: "flags AND GRADIENT_COLORS = GRADIENT_COLORS"
        using grad flag_and_set [of flags 8] by (simp add: GRADIENT_COLORS_def)
      consider (oob) "length data \<le> goff"
        | (small) "\<not> length data \<le> goff" "s < 4"
        | (beyond) "\<not> length data \<le> goff" "\<not> s < 4" "length data < goff + s + 1"
        | (few) "\<not> length data \<le> goff" "\<not> s < 4" "\<not> length data < goff + s + 1" "s < 4 + 3 * c"
        | (ok) "\<not> length data \<le> goff" "\<not> s < 4" "\<not> length data < goff + s + 1" "\<not> s < 4 + 3 * c"
        by blast
      then show ?thesis
      proof cases
        case oob
        then have "fromBytes data = Inl OutOfBounds" using grad by (simp add: fb r1 gc)
        moreover have "decode_outcome data = Some OutOfBounds"
          using oob len head_ok grad
          by (simp add: do)
        ultimately show ?thesis by simp
      next
        case small
        then have "fromBytes data = Inl GradientSizeTooSmall" using grad by (simp add: fb r1 gc)
        moreover have "decode_outcome data = Some GradientSizeTooSmall"
          using small len head_ok grad
          by (simp add: do)
        ultimately show ?thesis by simp
      next
        case beyond
        then have "fromBytes data = Inl GradientBeyondEnd" using grad by (simp add: fb r1 gc)
        moreover have "decode_outcome data = Some GradientBeyondEnd"
          using beyond len head_ok grad
          by (simp add: do)
        ultimately show ?thesis by simp
      next
        case few
        then have "fromBytes data = Inl GradientNotEnoughData" using grad by (simp add: fb r1 gc)
        moreover have "decode_outcome data = Some GradientNotEnoughData"
          using few len head_ok grad
          by (simp add: do)
        ultimately show ?thesis by simp
      next
        case ok
        have "goff + 5 + 3 * c \<le> length data" using ok by simp
        then obtain cols where cols: "read_colors data (goff + 5) (goff + 5 + 3 * c) = Inr cols"
            "length cols = c"
          using read_colors_ok [of "goff + 5" c data] by auto
        define r2 where "r2 = r1\<lparr>gradient := Some \<lparr>style = uint (data ! (goff + 2)), colors = cols\<rparr>\<rparr>"
        have g: "dec_gradient flags data (r1, goff) = Inr (r2, goff + s + 1)"
          using ok grad by (simp add: gc cols bindE_def r2_def)
        have fr2: "flag_word r2 = bh OR (flags AND GRADIENT_COLORS)"
          by (simp add: r2_def flag_word_gradient r1 fg)
        have off2: "goff + s + 1 \<le> length data" using ok by simp
        show ?thesis
        proof (cases "length data < goff + s + 1 + fixed_after flags")
          case True
          then have "seq_all tl_steps (r2, goff + s + 1) = Inl OutOfBounds"
            using tail [OF off2, of r2] by simp
          then have "fromBytes data = Inl OutOfBounds" by (simp add: fb r1 g)
          moreover have "decode_outcome data = Some OutOfBounds"
            using True ok len head_ok grad
            by (simp add: do)
          ultimately show ?thesis by simp
        next
          case False
          then obtain r3 where r3: "seq_all tl_steps (r2, goff + s + 1) = Inr (r3, goff + s + 1 + fixed_after flags)"
              "flag_word r3 = flag_word r2 OR bt" "gradient r3 = gradient r2"
            using tail [OF off2, of r2] by auto
          have "fromBytes data = Inr r3" using r3(1) by (simp add: fb r1 g)
          moreover have "decode_outcome data = None"
            using False ok len head_ok grad
            by (simp add: do)
          moreover have "gradient r3 = Some \<lparr>style = uint (data ! (goff + 2)), colors = cols\<rparr>"
            by (simp add: r3 r2_def)
          moreover have "nat (drop_bit 4 (uint (data ! Suc goff))) = c" by (simp add: c_def)
          ultimately show ?thesis
            using r3 fr2 lf grad cols
            by (simp add: flags_def[symmetric] goff_def[symmetric] or.assoc)
        qed
      qed
    qed
  qed
qed

text \<open>Where the two attributes after the gradient block are read from.\<close>

lemma tail_values:
  assumes "seq_all [dec_effectSpeed flags data, dec_gradientParams flags data] (r, off) = Inr (r', off')"
  shows "flags AND EFFECT_SPEED \<noteq> 0 \<Longrightarrow> effectSpeed r' = Some (uint (data ! off))"
    and "flags AND GRADIENT_PARAMS \<noteq> 0 \<Longrightarrow>
      gradientParams r' = Some
        \<lparr>scale = fl (of_int (uint (data ! (off + (if flags AND EFFECT_SPEED \<noteq> 0 then 1 else 0)))) / 8),
         offset = fl (of_int (uint (data ! (off + (if flags AND EFFECT_SPEED \<noteq> 0 then 1 else 0) + 1))) / 8)\<rparr>"
  using assms
  by (auto simp add: dec_effectSpeed_def dec_gradientParams_def getUint8_def bindE_def
      split: if_splits)

lemma fromBytes_tail:
  assumes m: "fromBytes data = Inr m" and grad: "flags_of data AND GRADIENT_COLORS \<noteq> 0"
  shows "\<exists>r2 off3. seq_all [dec_effectSpeed (flags_of data) data, dec_gradientParams (flags_of data) data]
           (r2, gradient_end data) = Inr (m, off3)"
proof -
  have len: "2 \<le> length data"
    using m fromBytes_short [of data] by (cases "length data < 2") simp_all
  define flags where "flags = flags_of data"
  define goff where "goff = gradient_offset flags"
  define hd_steps where "hd_steps = [dec_isOn flags data, dec_brightness flags data,
      dec_colorTemp flags data, dec_colorXY flags data, dec_transitionTime flags data,
      dec_effect flags data]"
  define tl_steps where "tl_steps = [dec_effectSpeed flags data, dec_gradientParams flags data]"
  have fb: "fromBytes data =
    (case seq_all hd_steps (new_message, 2) of Inl e \<Rightarrow> Inl e
     | Inr s1 \<Rightarrow> (case dec_gradient flags data s1 of Inl e \<Rightarrow> Inl e
         | Inr s2 \<Rightarrow> (case seq_all tl_steps s2 of Inl e \<Rightarrow> Inl e | Inr s3 \<Rightarrow> Inr (fst s3))))"
    unfolding hd_steps_def tl_steps_def flags_def by (rule fromBytes_unfold [OF len])
  have "\<exists>s1 s2 s3. seq_all hd_steps (new_message, 2) = Inr s1 \<and> dec_gradient flags data s1 = Inr s2
      \<and> seq_all tl_steps s2 = Inr s3 \<and> m = fst s3"
    using m unfolding fb by (auto split: sum.splits)
  then obtain s1 s2 s3 where s1: "seq_all hd_steps (new_message, 2) = Inr s1"
    and s2: "dec_gradient flags data s1 = Inr s2"
    and s3: "seq_all tl_steps s2 = Inr s3" and ms: "m = fst s3"
    by blast
  have rh: "reads data (fixed_before flags) ((flags AND ON_OFF) OR ((flags AND BRIGHTNESS) OR
      ((flags AND COLOR_MIRED) OR ((flags AND COLOR_XY) OR ((flags AND TRANSITION_TIME) OR
      ((flags AND EFFECT) OR 0)))))) (seq_all hd_steps)"
    unfolding hd_steps_def by (rule reads_head)
  have "snd s1 = goff"
    using rh [unfolded reads_def, rule_format, of 2 new_message] len s1
    by (auto simp add: goff_def gradient_offset_def split: if_splits)
  then obtain r1 where r1: "s1 = (r1, goff)" by (cases s1) simp
  have g: "flags AND GRADIENT_COLORS \<noteq> 0" using grad by (simp add: flags_def)
  have "snd s2 = goff + nat (uint (data ! goff)) + 1"
    using s2 g unfolding r1 dec_gradient_cases
    by (auto simp add: bindE_def split: if_splits sum.splits)
  then have "snd s2 = gradient_end data"
    by (simp add: gradient_end_def goff_def flags_def)
  then have "seq_all tl_steps (fst s2, gradient_end data) = Inr (m, snd s3)"
    using s3 ms by (metis prod.collapse)
  then show ?thesis
    unfolding tl_steps_def flags_def by blast
qed

section \<open>Truncated buffers and malformed gradient blocks\<close>

lemma fromBytes_Inl_iff: "fromBytes data = Inl e \<longleftrightarrow> decode_outcome data = Some e"
  using fromBytes_outcome [of data] by (cases "decode_outcome data") auto

lemma fromBytes_Inr_outcome: "fromBytes data = Inr m \<Longrightarrow> decode_outcome data = None"
  using fromBytes_outcome [of data] by (cases "decode_outcome data") auto

lemma fromBytes_Inr_flag_word: "fromBytes data = Inr m \<Longrightarrow> flag_word m = flags_of data AND 511"
  using fromBytes_outcome [of data] by (cases "decode_outcome data") auto

lemma and_511_single:
  "k < 9 \<Longrightarrow> ((f AND 511) AND push_bit k 1 \<noteq> 0) = (f AND push_bit k 1 \<noteq> 0)" for f :: int
proof -
  assume k: "k < 9"
  have m: "(511::int) = mask 9" by (simp add: mask_eq_exp_minus_1)
  show ?thesis
    unfolding flag_test m using k by (simp add: bit_and_iff bit_mask_iff)
qed

lemma fromBytes_populated:
  assumes "fromBytes data = Inr m"
  shows "(isOn m \<noteq> None) = (flags_of data AND ON_OFF \<noteq> 0)"
    "(brightness m \<noteq> None) = (flags_of data AND BRIGHTNESS \<noteq> 0)"
    "(colorTemp m \<noteq> None) = (flags_of data AND COLOR_MIRED \<noteq> 0)"
    "(colorXY m \<noteq> None) = (flags_of data AND COLOR_XY \<noteq> 0)"
    "(transitionTime m \<noteq> None) = (flags_of data AND TRANSITION_TIME \<noteq> 0)"
    "(effect m \<noteq> None) = (flags_of data AND EFFECT \<noteq> 0)"
    "(gradient m \<noteq> None) = (flags_of data AND GRADIENT_COLORS \<noteq> 0)"
    "(effectSpeed m \<noteq> None) = (flags_of data AND EFFECT_SPEED \<noteq> 0)"
    "(gradientParams m \<noteq> None) = (flags_of data AND GRADIENT_PARAMS \<noteq> 0)"
  using flag_word_tests [of m, symmetric]
  unfolding fromBytes_Inr_flag_word [OF assms]
  unfolding ON_OFF_def BRIGHTNESS_def COLOR_MIRED_def COLOR_XY_def TRANSITION_TIME_def
    EFFECT_def GRADIENT_PARAMS_def EFFECT_SPEED_def GRADIENT_COLORS_def
  by (simp_all only: and_511_single less_numeral_extra simp_thms)


lemma truncated_outcome:
  assumes "length data < required_length data"
  shows "decode_outcome data = Some
     (if length data < 2 \<or> flags_of data AND GRADIENT_COLORS = 0
           \<or> length data \<le> gradient_offset (flags_of data) then OutOfBounds
      else if unat (data ! gradient_offset (flags_of data)) < 4 then GradientSizeTooSmall
      else if length data < gradient_end data then GradientBeyondEnd
      else if unat (data ! gradient_offset (flags_of data))
                < 4 + 3 * nat (drop_bit 4 (uint (data ! (gradient_offset (flags_of data) + 1))))
      then GradientNotEnoughData
      else OutOfBounds)"
  using assms
  by (auto simp add: decode_outcome_def required_length_def gradient_end_def Let_def
      gradient_offset_def split: if_splits)

lemma complete_outcome:
  assumes "decode_outcome data = None"
  shows "required_length data \<le> length data"
  using assms
  by (auto simp add: decode_outcome_def required_length_def Let_def gradient_offset_def split: if_splits)

text \<open>
  C3, as the code has it. \<open>fromBytes\<close> throws on every truncated buffer, and which error
  it throws is settled by the first check that fails. It is the out-of-bounds
  \<open>RangeError\<close> of the \<open>DataView\<close> (a length error) when the buffer has fewer than 2
  bytes, when the gradient flag is clear, or when the buffer ends before the size byte of
  the gradient block. When the gradient flag is set and the size byte is in the buffer, it
  is "size too small" for a size below 4; otherwise "extends beyond end of data" when the
  block that the size byte declares runs past the end of the buffer; otherwise "not enough
  data" when the colour count needs more than the size; and when the block lies in the
  buffer and is well formed, so that it is an attribute after the block that is cut short,
  it is again the out-of-bounds \<open>RangeError\<close>. When \<open>fromBytes\<close> returns a message, the
  buffer has the declared length and each attribute is set exactly when its flag bit is.
\<close>

theorem fromBytes_truncated:
  "(length data < required_length data \<longrightarrow>
      (\<exists>e. fromBytes data = Inl e) \<and>
      (length data < 2 \<or> flags_of data AND GRADIENT_COLORS = 0
         \<or> length data \<le> gradient_offset (flags_of data)
       \<longrightarrow> fromBytes data = Inl OutOfBounds) \<and>
      (2 \<le> length data \<and> flags_of data AND GRADIENT_COLORS \<noteq> 0
         \<and> gradient_offset (flags_of data) < length data \<longrightarrow>
         (unat (data ! gradient_offset (flags_of data)) < 4
          \<longrightarrow> fromBytes data = Inl GradientSizeTooSmall) \<and>
         (4 \<le> unat (data ! gradient_offset (flags_of data)) \<and> length data < gradient_end data
          \<longrightarrow> fromBytes data = Inl GradientBeyondEnd) \<and>
         (4 \<le> unat (data ! gradient_offset (flags_of data)) \<and> gradient_end data \<le> length data \<and>
          unat (data ! gradient_offset (flags_of data))
            < 4 + 3 * nat (drop_bit 4 (uint (data ! (gradient_offset (flags_of data) + 1))))
          \<longrightarrow> fromBytes data = Inl GradientNotEnoughData) \<and>
         (gradient_end data \<le> length data \<and>
          4 + 3 * nat (drop_bit 4 (uint (data ! (gradient_offset (flags_of data) + 1))))
            \<le> unat (data ! gradient_offset (flags_of data))
          \<longrightarrow> fromBytes data = Inl OutOfBounds))) \<and>
   kind_of OutOfBounds = LengthError \<and> kind_of GradientSizeTooSmall = FormatError \<and>
   kind_of GradientBeyondEnd = FormatError \<and> kind_of GradientNotEnoughData = FormatError \<and>
   (\<forall>m. fromBytes data = Inr m \<longrightarrow>
      required_length data \<le> length data \<and>
      (isOn m \<noteq> None) = (flags_of data AND ON_OFF \<noteq> 0) \<and>
      (brightness m \<noteq> None) = (flags_of data AND BRIGHTNESS \<noteq> 0) \<and>
      (colorTemp m \<noteq> None) = (flags_of data AND COLOR_MIRED \<noteq> 0) \<and>
      (colorXY m \<noteq> None) = (flags_of data AND COLOR_XY \<noteq> 0) \<and>
      (transitionTime m \<noteq> None) = (flags_of data AND TRANSITION_TIME \<noteq> 0) \<and>
      (effect m \<noteq> None) = (flags_of data AND EFFECT \<noteq> 0) \<and>
      (gradient m \<noteq> None) = (flags_of data AND GRADIENT_COLORS \<noteq> 0) \<and>
      (effectSpeed m \<noteq> None) = (flags_of data AND EFFECT_SPEED \<noteq> 0) \<and>
      (gradientParams m \<noteq> None) = (flags_of data AND GRADIENT_PARAMS \<noteq> 0))"
proof -
  have t: "fromBytes data = Inl
     (if length data < 2 \<or> flags_of data AND GRADIENT_COLORS = 0
           \<or> length data \<le> gradient_offset (flags_of data) then OutOfBounds
      else if unat (data ! gradient_offset (flags_of data)) < 4 then GradientSizeTooSmall
      else if length data < gradient_end data then GradientBeyondEnd
      else if unat (data ! gradient_offset (flags_of data))
                < 4 + 3 * nat (drop_bit 4 (uint (data ! (gradient_offset (flags_of data) + 1))))
      then GradientNotEnoughData
      else OutOfBounds)" if "length data < required_length data"
    using truncated_outcome [OF that] by (simp only: fromBytes_Inl_iff)
  have tr: "length data < required_length data \<longrightarrow>
      (\<exists>e. fromBytes data = Inl e) \<and>
      (length data < 2 \<or> flags_of data AND GRADIENT_COLORS = 0
         \<or> length data \<le> gradient_offset (flags_of data)
       \<longrightarrow> fromBytes data = Inl OutOfBounds) \<and>
      (2 \<le> length data \<and> flags_of data AND GRADIENT_COLORS \<noteq> 0
         \<and> gradient_offset (flags_of data) < length data \<longrightarrow>
         (unat (data ! gradient_offset (flags_of data)) < 4
          \<longrightarrow> fromBytes data = Inl GradientSizeTooSmall) \<and>
         (4 \<le> unat (data ! gradient_offset (flags_of data)) \<and> length data < gradient_end data
          \<longrightarrow> fromBytes data = Inl GradientBeyondEnd) \<and>
         (4 \<le> unat (data ! gradient_offset (flags_of data)) \<and> gradient_end data \<le> length data \<and>
          unat (data ! gradient_offset (flags_of data))
            < 4 + 3 * nat (drop_bit 4 (uint (data ! (gradient_offset (flags_of data) + 1))))
          \<longrightarrow> fromBytes data = Inl GradientNotEnoughData) \<and>
         (gradient_end data \<le> length data \<and>
          4 + 3 * nat (drop_bit 4 (uint (data ! (gradient_offset (flags_of data) + 1))))
            \<le> unat (data ! gradient_offset (flags_of data))
          \<longrightarrow> fromBytes data = Inl OutOfBounds))"
  proof
    assume a: "length data < required_length data"
    show "(\<exists>e. fromBytes data = Inl e) \<and>
      (length data < 2 \<or> flags_of data AND GRADIENT_COLORS = 0
         \<or> length data \<le> gradient_offset (flags_of data)
       \<longrightarrow> fromBytes data = Inl OutOfBounds) \<and>
      (2 \<le> length data \<and> flags_of data AND GRADIENT_COLORS \<noteq> 0
         \<and> gradient_offset (flags_of data) < length data \<longrightarrow>
         (unat (data ! gradient_offset (flags_of data)) < 4
          \<longrightarrow> fromBytes data = Inl GradientSizeTooSmall) \<and>
         (4 \<le> unat (data ! gradient_offset (flags_of data)) \<and> length data < gradient_end data
          \<longrightarrow> fromBytes data = Inl GradientBeyondEnd) \<and>
         (4 \<le> unat (data ! gradient_offset (flags_of data)) \<and> gradient_end data \<le> length data \<and>
          unat (data ! gradient_offset (flags_of data))
            < 4 + 3 * nat (drop_bit 4 (uint (data ! (gradient_offset (flags_of data) + 1))))
          \<longrightarrow> fromBytes data = Inl GradientNotEnoughData) \<and>
         (gradient_end data \<le> length data \<and>
          4 + 3 * nat (drop_bit 4 (uint (data ! (gradient_offset (flags_of data) + 1))))
            \<le> unat (data ! gradient_offset (flags_of data))
          \<longrightarrow> fromBytes data = Inl OutOfBounds))"
      unfolding t [OF a] by (auto simp add: gradient_end_def)
  qed
  have co: "\<forall>m. fromBytes data = Inr m \<longrightarrow>
      required_length data \<le> length data \<and>
      (isOn m \<noteq> None) = (flags_of data AND ON_OFF \<noteq> 0) \<and>
      (brightness m \<noteq> None) = (flags_of data AND BRIGHTNESS \<noteq> 0) \<and>
      (colorTemp m \<noteq> None) = (flags_of data AND COLOR_MIRED \<noteq> 0) \<and>
      (colorXY m \<noteq> None) = (flags_of data AND COLOR_XY \<noteq> 0) \<and>
      (transitionTime m \<noteq> None) = (flags_of data AND TRANSITION_TIME \<noteq> 0) \<and>
      (effect m \<noteq> None) = (flags_of data AND EFFECT \<noteq> 0) \<and>
      (gradient m \<noteq> None) = (flags_of data AND GRADIENT_COLORS \<noteq> 0) \<and>
      (effectSpeed m \<noteq> None) = (flags_of data AND EFFECT_SPEED \<noteq> 0) \<and>
      (gradientParams m \<noteq> None) = (flags_of data AND GRADIENT_PARAMS \<noteq> 0)"
  proof (intro allI impI conjI)
    fix m assume m: "fromBytes data = Inr m"
    show "required_length data \<le> length data"
      using complete_outcome [OF fromBytes_Inr_outcome [OF m]] .
  qed (rule fromBytes_populated, assumption)+
  show ?thesis
    using tr co by (simp only: kind_of.simps simp_thms)
qed

text \<open>What evaluates \<open>fromBytes\<close> on a given buffer.\<close>

lemmas decode_steps = fromBytes_def getUint16_def getUint8_def bindE_def dec_isOn_def
  dec_brightness_def dec_colorTemp_def dec_colorXY_def dec_transitionTime_def dec_effect_def
  dec_gradient_def dec_effectSpeed_def dec_gradientParams_def

lemma flags_3:
  "(3::int) AND GRADIENT_COLORS = 0" "(3::int) AND ON_OFF \<noteq> 0" "(3::int) AND BRIGHTNESS \<noteq> 0"
  "(3::int) AND COLOR_MIRED = 0" "(3::int) AND COLOR_XY = 0" "(3::int) AND TRANSITION_TIME = 0"
  "(3::int) AND EFFECT = 0" "(3::int) AND EFFECT_SPEED = 0" "(3::int) AND GRADIENT_PARAMS = 0"
  by (simp_all add: GRADIENT_COLORS_def ON_OFF_def BRIGHTNESS_def COLOR_MIRED_def COLOR_XY_def
      TRANSITION_TIME_def EFFECT_def EFFECT_SPEED_def GRADIENT_PARAMS_def)

lemma flags_256:
  "(256::int) AND GRADIENT_COLORS \<noteq> 0" "(256::int) AND ON_OFF = 0" "(256::int) AND BRIGHTNESS = 0"
  "(256::int) AND COLOR_MIRED = 0" "(256::int) AND COLOR_XY = 0" "(256::int) AND TRANSITION_TIME = 0"
  "(256::int) AND EFFECT = 0" "(256::int) AND EFFECT_SPEED = 0" "(256::int) AND GRADIENT_PARAMS = 0"
  by (simp_all add: GRADIENT_COLORS_def ON_OFF_def BRIGHTNESS_def COLOR_MIRED_def COLOR_XY_def
      TRANSITION_TIME_def EFFECT_def EFFECT_SPEED_def GRADIENT_PARAMS_def)

lemma flags_384:
  "(384::int) AND GRADIENT_COLORS \<noteq> 0" "(384::int) AND ON_OFF = 0" "(384::int) AND BRIGHTNESS = 0"
  "(384::int) AND COLOR_MIRED = 0" "(384::int) AND COLOR_XY = 0" "(384::int) AND TRANSITION_TIME = 0"
  "(384::int) AND EFFECT = 0" "(384::int) AND EFFECT_SPEED \<noteq> 0" "(384::int) AND GRADIENT_PARAMS = 0"
  by (simp_all add: GRADIENT_COLORS_def ON_OFF_def BRIGHTNESS_def COLOR_MIRED_def COLOR_XY_def
      TRANSITION_TIME_def EFFECT_def EFFECT_SPEED_def GRADIENT_PARAMS_def)

lemma gradient_offset_no_head:
  "gradient_offset 256 = 2" "gradient_offset 384 = 2" "gradient_offset 3 = 4"
  "fixed_after 256 = 0" "fixed_after 384 = 1" "fixed_after 3 = 0"
  by (simp_all add: gradient_offset_def fixed_before_def fixed_after_def flags_256 flags_384 flags_3)

theorem fromBytes_truncated_witness:
  "length [0x03, 0x00, 0x01 :: byte] < required_length [0x03, 0x00, 0x01]
   \<and> fromBytes [0x03, 0x00, 0x01] = Inl OutOfBounds
   \<and> length [0x80, 0x01, 0x04, 0x00, 0x02, 0x00, 0x00 :: byte]
         < required_length [0x80, 0x01, 0x04, 0x00, 0x02, 0x00, 0x00]
   \<and> fromBytes [0x80, 0x01, 0x04, 0x00, 0x02, 0x00, 0x00] = Inl OutOfBounds
   \<and> (\<exists>m. fromBytes [0x03, 0x00, 0x01, 0x7f] = Inr m \<and> isOn m \<noteq> None \<and> brightness m \<noteq> None
          \<and> colorTemp m = None \<and> colorXY m = None \<and> transitionTime m = None \<and> effect m = None
          \<and> gradient m = None \<and> effectSpeed m = None \<and> gradientParams m = None)
   \<and> required_length [0x03, 0x00, 0x01, 0x7f] \<le> length [0x03, 0x00, 0x01, 0x7f :: byte]"
proof -
  have f: "flags_of [0x03, 0x00, 0x01 :: byte] = 3" "flags_of [0x03, 0x00, 0x01, 0x7f :: byte] = 3"
    "flags_of [0x80, 0x01, 0x04, 0x00, 0x02, 0x00, 0x00 :: byte] = 384"
    by (simp_all add: flags_of_def)
  have r: "required_length [0x03, 0x00, 0x01 :: byte] = 4" "required_length [0x03, 0x00, 0x01, 0x7f :: byte] = 4"
    "required_length [0x80, 0x01, 0x04, 0x00, 0x02, 0x00, 0x00 :: byte] = 8"
    by (simp_all add: required_length_def f flags_3 flags_384 gradient_offset_no_head)
  have e: "gradient_end [0x80, 0x01, 0x04, 0x00, 0x02, 0x00, 0x00 :: byte] = 7"
    by (simp add: gradient_end_def f gradient_offset_no_head)
  have o: "decode_outcome [0x03, 0x00, 0x01, 0x7f] = None"
    by (simp add: decode_outcome_def f flags_3 gradient_offset_no_head)
  obtain m where m: "fromBytes [0x03, 0x00, 0x01, 0x7f] = Inr m"
    using fromBytes_outcome [of "[0x03, 0x00, 0x01, 0x7f]"] by (auto simp add: o)
  have 1: "fromBytes [0x03, 0x00, 0x01] = Inl OutOfBounds"
    using fromBytes_truncated [of "[0x03, 0x00, 0x01]"] by (simp add: r f flags_3)
  have 2: "fromBytes [0x80, 0x01, 0x04, 0x00, 0x02, 0x00, 0x00] = Inl OutOfBounds"
    using fromBytes_truncated [of "[0x80, 0x01, 0x04, 0x00, 0x02, 0x00, 0x00]"]
    by (simp add: r f e flags_384 gradient_offset_no_head drop_bit_eq_div)
  have 3: "isOn m \<noteq> None \<and> brightness m \<noteq> None
          \<and> colorTemp m = None \<and> colorXY m = None \<and> transitionTime m = None \<and> effect m = None
          \<and> gradient m = None \<and> effectSpeed m = None \<and> gradientParams m = None"
    using fromBytes_truncated [of "[0x03, 0x00, 0x01, 0x7f]"] m by (simp add: f flags_3)
  show ?thesis
    using 1 2 3 m by (simp add: r)
qed

theorem fromBytes_truncated_gradient_counterexample:
  "length [0x00, 0x01, 0x0a :: byte] < required_length [0x00, 0x01, 0x0a]
   \<and> fromBytes [0x00, 0x01, 0x0a] = Inl GradientBeyondEnd
   \<and> length [0x00, 0x01, 0x03 :: byte] < required_length [0x00, 0x01, 0x03]
   \<and> fromBytes [0x00, 0x01, 0x03] = Inl GradientSizeTooSmall
   \<and> length [0x80, 0x01, 0x04, 0x10, 0x02, 0x00, 0x00 :: byte]
         < required_length [0x80, 0x01, 0x04, 0x10, 0x02, 0x00, 0x00]
   \<and> fromBytes [0x80, 0x01, 0x04, 0x10, 0x02, 0x00, 0x00] = Inl GradientNotEnoughData
   \<and> kind_of GradientBeyondEnd \<noteq> LengthError \<and> kind_of GradientSizeTooSmall \<noteq> LengthError
   \<and> kind_of GradientNotEnoughData \<noteq> LengthError"
proof -
  have f: "flags_of [0x00, 0x01, 0x0a :: byte] = 256" "flags_of [0x00, 0x01, 0x03 :: byte] = 256"
    "flags_of [0x80, 0x01, 0x04, 0x10, 0x02, 0x00, 0x00 :: byte] = 384"
    by (simp_all add: flags_of_def)
  have r: "required_length [0x00, 0x01, 0x0a :: byte] = 13" "required_length [0x00, 0x01, 0x03 :: byte] = 6"
    "required_length [0x80, 0x01, 0x04, 0x10, 0x02, 0x00, 0x00 :: byte] = 8"
    by (simp_all add: required_length_def f flags_256 flags_384 gradient_offset_no_head)
  have d: "decode_outcome [0x00, 0x01, 0x0a] = Some GradientBeyondEnd"
    "decode_outcome [0x00, 0x01, 0x03] = Some GradientSizeTooSmall"
    "decode_outcome [0x80, 0x01, 0x04, 0x10, 0x02, 0x00, 0x00] = Some GradientNotEnoughData"
    by (simp_all add: decode_outcome_def f flags_256 flags_384 gradient_offset_no_head drop_bit_eq_div)
  show ?thesis
    using d by (simp add: r fromBytes_Inl_iff)
qed

lemma outcome_gradient_iff:
  "decode_outcome data = Some GradientSizeTooSmall \<longleftrightarrow>
     2 \<le> length data \<and> flags_of data AND GRADIENT_COLORS \<noteq> 0 \<and>
     gradient_offset (flags_of data) < length data \<and>
     unat (data ! gradient_offset (flags_of data)) < 4"
  "decode_outcome data = Some GradientBeyondEnd \<longleftrightarrow>
     2 \<le> length data \<and> flags_of data AND GRADIENT_COLORS \<noteq> 0 \<and>
     gradient_offset (flags_of data) < length data \<and>
     4 \<le> unat (data ! gradient_offset (flags_of data)) \<and>
     length data < gradient_offset (flags_of data) + unat (data ! gradient_offset (flags_of data)) + 1"
  "decode_outcome data = Some GradientNotEnoughData \<longleftrightarrow>
     2 \<le> length data \<and> flags_of data AND GRADIENT_COLORS \<noteq> 0 \<and>
     gradient_offset (flags_of data) < length data \<and>
     4 \<le> unat (data ! gradient_offset (flags_of data)) \<and>
     gradient_offset (flags_of data) + unat (data ! gradient_offset (flags_of data)) + 1 \<le> length data \<and>
     unat (data ! gradient_offset (flags_of data))
       < 4 + 3 * nat (drop_bit 4 (uint (data ! (gradient_offset (flags_of data) + 1))))"
  by (auto simp add: decode_outcome_def Let_def split: if_splits)

lemma outcome_errors:
  "decode_outcome data = Some e \<Longrightarrow>
     e \<in> {OutOfBounds, GradientSizeTooSmall, GradientBeyondEnd, GradientNotEnoughData}"
  by (auto simp add: decode_outcome_def Let_def split: if_splits)

text \<open>
  C4. \<open>fromBytes\<close> throws "size too small" exactly when the gradient flag is set, the
  size byte is in the buffer and is less than 4; "extends beyond end of data" exactly when
  the size is at least 4 and offset + size + 1 is more than the length of the buffer;
  "not enough data" exactly when the block fits and the 4-byte header plus 3 bytes per
  colour of the count in the high nibble is more than the size. These three are the only
  format errors, and the only other error of \<open>fromBytes\<close> is the out-of-bounds read.
\<close>

theorem fromBytes_gradient_errors:
  "(fromBytes data = Inl GradientSizeTooSmall \<longleftrightarrow>
      2 \<le> length data \<and> flags_of data AND GRADIENT_COLORS \<noteq> 0 \<and>
      gradient_offset (flags_of data) < length data \<and>
      unat (data ! gradient_offset (flags_of data)) < 4) \<and>
   (fromBytes data = Inl GradientBeyondEnd \<longleftrightarrow>
      2 \<le> length data \<and> flags_of data AND GRADIENT_COLORS \<noteq> 0 \<and>
      gradient_offset (flags_of data) < length data \<and>
      4 \<le> unat (data ! gradient_offset (flags_of data)) \<and>
      length data < gradient_offset (flags_of data) + unat (data ! gradient_offset (flags_of data)) + 1) \<and>
   (fromBytes data = Inl GradientNotEnoughData \<longleftrightarrow>
      2 \<le> length data \<and> flags_of data AND GRADIENT_COLORS \<noteq> 0 \<and>
      gradient_offset (flags_of data) < length data \<and>
      4 \<le> unat (data ! gradient_offset (flags_of data)) \<and>
      gradient_offset (flags_of data) + unat (data ! gradient_offset (flags_of data)) + 1 \<le> length data \<and>
      unat (data ! gradient_offset (flags_of data))
        < 4 + 3 * nat (drop_bit 4 (uint (data ! (gradient_offset (flags_of data) + 1))))) \<and>
   (\<forall>e. fromBytes data = Inl e \<longrightarrow>
      e \<in> {OutOfBounds, GradientSizeTooSmall, GradientBeyondEnd, GradientNotEnoughData}) \<and>
   kind_of GradientSizeTooSmall = FormatError \<and> kind_of GradientBeyondEnd = FormatError \<and>
   kind_of GradientNotEnoughData = FormatError \<and> kind_of OutOfBounds = LengthError"
  unfolding fromBytes_Inl_iff
  by (intro conjI allI impI outcome_gradient_iff outcome_errors kind_of.simps)

theorem fromBytes_gradient_errors_witness:
  "fromBytes [0x00, 0x01, 0x03, 0x00, 0x02, 0x00] = Inl GradientSizeTooSmall
   \<and> fromBytes [0x00, 0x01, 0x04, 0x00, 0x02, 0x00] = Inl GradientBeyondEnd
   \<and> fromBytes [0x00, 0x01, 0x04, 0x10, 0x02, 0x00, 0x00] = Inl GradientNotEnoughData"
proof -
  have f: "flags_of [0x00, 0x01, 0x03, 0x00, 0x02, 0x00 :: byte] = 256"
    "flags_of [0x00, 0x01, 0x04, 0x00, 0x02, 0x00 :: byte] = 256"
    "flags_of [0x00, 0x01, 0x04, 0x10, 0x02, 0x00, 0x00 :: byte] = 256"
    by (simp_all add: flags_of_def)
  have g: "(256::int) AND GRADIENT_COLORS \<noteq> 0" "(256::int) AND ON_OFF = 0" "(256::int) AND BRIGHTNESS = 0"
    "(256::int) AND COLOR_MIRED = 0" "(256::int) AND COLOR_XY = 0" "(256::int) AND TRANSITION_TIME = 0"
    "(256::int) AND EFFECT = 0"
    by (simp_all add: GRADIENT_COLORS_def ON_OFF_def BRIGHTNESS_def COLOR_MIRED_def COLOR_XY_def
        TRANSITION_TIME_def EFFECT_def)
  have o: "gradient_offset 256 = 2"
    by (simp add: gradient_offset_def fixed_before_def g)
  have 1: "fromBytes [0x00, 0x01, 0x03, 0x00, 0x02, 0x00] = Inl GradientSizeTooSmall"
    using fromBytes_gradient_errors [of "[0x00, 0x01, 0x03, 0x00, 0x02, 0x00]"]
    by (simp add: f g o)
  have 2: "fromBytes [0x00, 0x01, 0x04, 0x00, 0x02, 0x00] = Inl GradientBeyondEnd"
    using fromBytes_gradient_errors [of "[0x00, 0x01, 0x04, 0x00, 0x02, 0x00]"]
    by (simp add: f g o)
  have 3: "fromBytes [0x00, 0x01, 0x04, 0x10, 0x02, 0x00, 0x00] = Inl GradientNotEnoughData"
    using fromBytes_gradient_errors [of "[0x00, 0x01, 0x04, 0x10, 0x02, 0x00, 0x00]"]
    by (simp add: f g o drop_bit_eq_div)
  show ?thesis using 1 2 3 by (intro conjI)
qed

lemma outcome_None_gradient_iff:
  assumes "flags_of data AND GRADIENT_COLORS \<noteq> 0"
  shows "decode_outcome data = None \<longleftrightarrow>
     gradient_offset (flags_of data) < length data \<and>
     4 + 3 * nat (drop_bit 4 (uint (data ! (gradient_offset (flags_of data) + 1))))
       \<le> unat (data ! gradient_offset (flags_of data)) \<and>
     gradient_end data + fixed_after (flags_of data) \<le> length data"
  using assms
  by (auto simp add: decode_outcome_def gradient_end_def gradient_offset_def Let_def split: if_splits)

text \<open>
  C5, as the code has it. When the gradient flag is set, \<open>fromBytes\<close> returns a message
  exactly when the size byte is in the buffer and is at least \<open>4 + 3 \<times> colorCount\<close>, and
  the buffer holds the \<open>size + 1\<close> bytes of the block and, after them, the bytes of the
  attributes flagged after the gradient. The gradient then has \<open>colorCount\<close> colours, and
  the effect speed and the gradient parameters, when flagged, are the bytes from offset
  \<open>offset + size + 1\<close> on: what the size byte declares beyond \<open>4 + 3 \<times> colorCount\<close> is
  skipped. A block whose size byte is less than \<open>4 + 3 \<times> colorCount\<close> is rejected with a
  format error.
\<close>

theorem fromBytes_gradient_size:
  "flags_of data AND GRADIENT_COLORS \<noteq> 0 \<longrightarrow>
     ((\<exists>m. fromBytes data = Inr m) \<longleftrightarrow>
        gradient_offset (flags_of data) < length data \<and>
        4 + 3 * nat (drop_bit 4 (uint (data ! (gradient_offset (flags_of data) + 1))))
          \<le> unat (data ! gradient_offset (flags_of data)) \<and>
        gradient_end data + fixed_after (flags_of data) \<le> length data) \<and>
     (\<forall>m. fromBytes data = Inr m \<longrightarrow>
        (\<exists>g. gradient m = Some g \<and>
           length (colors g) = nat (drop_bit 4 (uint (data ! (gradient_offset (flags_of data) + 1))))) \<and>
        (flags_of data AND EFFECT_SPEED \<noteq> 0 \<longrightarrow>
           effectSpeed m = Some (uint (data ! gradient_end data))) \<and>
        (flags_of data AND GRADIENT_PARAMS \<noteq> 0 \<longrightarrow>
           gradientParams m = Some
             \<lparr>scale = fl (of_int (uint (data ! (gradient_end data
                        + (if flags_of data AND EFFECT_SPEED \<noteq> 0 then 1 else 0)))) / 8),
              offset = fl (of_int (uint (data ! (gradient_end data
                        + (if flags_of data AND EFFECT_SPEED \<noteq> 0 then 1 else 0) + 1))) / 8)\<rparr>)) \<and>
     (gradient_offset (flags_of data) < length data \<and>
      unat (data ! gradient_offset (flags_of data))
        < 4 + 3 * nat (drop_bit 4 (uint (data ! (gradient_offset (flags_of data) + 1)))) \<longrightarrow>
        (\<exists>e. fromBytes data = Inl e \<and> kind_of e = FormatError))"
proof (intro impI conjI allI)
  assume grad: "flags_of data AND GRADIENT_COLORS \<noteq> 0"
  have "(\<exists>m. fromBytes data = Inr m) \<longleftrightarrow> decode_outcome data = None"
    using fromBytes_outcome [of data] by (cases "decode_outcome data") auto
  then show "(\<exists>m. fromBytes data = Inr m) \<longleftrightarrow>
        gradient_offset (flags_of data) < length data \<and>
        4 + 3 * nat (drop_bit 4 (uint (data ! (gradient_offset (flags_of data) + 1))))
          \<le> unat (data ! gradient_offset (flags_of data)) \<and>
        gradient_end data + fixed_after (flags_of data) \<le> length data"
    by (simp only: outcome_None_gradient_iff [OF grad])
next
  fix m
  assume grad: "flags_of data AND GRADIENT_COLORS \<noteq> 0" and m: "fromBytes data = Inr m"
  have n: "decode_outcome data = None" using m by (rule fromBytes_Inr_outcome)
  show "\<exists>g. gradient m = Some g \<and>
           length (colors g) = nat (drop_bit 4 (uint (data ! (gradient_offset (flags_of data) + 1))))"
    using fromBytes_outcome [of data] m n grad by auto
  obtain r2 off3 where t: "seq_all [dec_effectSpeed (flags_of data) data,
      dec_gradientParams (flags_of data) data] (r2, gradient_end data) = Inr (m, off3)"
    using fromBytes_tail [OF m grad] by blast
  show "effectSpeed m = Some (uint (data ! gradient_end data))"
    if "flags_of data AND EFFECT_SPEED \<noteq> 0"
    using that by (rule tail_values(1) [OF t])
  show "gradientParams m = Some
             \<lparr>scale = fl (of_int (uint (data ! (gradient_end data
                        + (if flags_of data AND EFFECT_SPEED \<noteq> 0 then 1 else 0)))) / 8),
              offset = fl (of_int (uint (data ! (gradient_end data
                        + (if flags_of data AND EFFECT_SPEED \<noteq> 0 then 1 else 0) + 1))) / 8)\<rparr>"
    if "flags_of data AND GRADIENT_PARAMS \<noteq> 0"
    using that by (rule tail_values(2) [OF t])
next
  assume grad: "flags_of data AND GRADIENT_COLORS \<noteq> 0"
    and a: "gradient_offset (flags_of data) < length data \<and>
      unat (data ! gradient_offset (flags_of data))
        < 4 + 3 * nat (drop_bit 4 (uint (data ! (gradient_offset (flags_of data) + 1))))"
  then have "decode_outcome data \<in> {Some GradientSizeTooSmall, Some GradientBeyondEnd,
      Some GradientNotEnoughData}"
    by (auto simp add: decode_outcome_def Let_def gradient_offset_def)
  then show "\<exists>e. fromBytes data = Inl e \<and> kind_of e = FormatError"
    unfolding fromBytes_Inl_iff by auto
qed

theorem fromBytes_gradient_size_witness:
  "(\<exists>m. fromBytes [0x80, 0x01, 0x04, 0x00, 0x02, 0x00, 0x00, 0x12] = Inr m
        \<and> (\<exists>g. gradient m = Some g \<and> length (colors g) = 0) \<and> effectSpeed m = Some 0x12)
   \<and> 4 + 3 * nat (drop_bit 4 (uint (0x00 :: byte))) \<le> unat (0x04 :: byte)
   \<and> (\<exists>e. fromBytes [0x00, 0x01, 0x04, 0x10, 0x02, 0x00, 0x00] = Inl e \<and> kind_of e = FormatError)"
proof -
  have f: "flags_of [0x80, 0x01, 0x04, 0x00, 0x02, 0x00, 0x00, 0x12 :: byte] = 384"
    "flags_of [0x00, 0x01, 0x04, 0x10, 0x02, 0x00, 0x00 :: byte] = 256"
    by (simp_all add: flags_of_def)
  have e: "gradient_end [0x80, 0x01, 0x04, 0x00, 0x02, 0x00, 0x00, 0x12 :: byte] = 7"
    by (simp add: gradient_end_def f gradient_offset_no_head)
  have 1: "\<exists>m. fromBytes [0x80, 0x01, 0x04, 0x00, 0x02, 0x00, 0x00, 0x12] = Inr m
        \<and> (\<exists>g. gradient m = Some g \<and> length (colors g) = 0) \<and> effectSpeed m = Some 0x12"
    using fromBytes_gradient_size [of "[0x80, 0x01, 0x04, 0x00, 0x02, 0x00, 0x00, 0x12]"]
    by (simp add: f e flags_384 gradient_offset_no_head drop_bit_eq_div) blast
  have 2: "\<exists>e. fromBytes [0x00, 0x01, 0x04, 0x10, 0x02, 0x00, 0x00] = Inl e \<and> kind_of e = FormatError"
    using fromBytes_gradient_size [of "[0x00, 0x01, 0x04, 0x10, 0x02, 0x00, 0x00]"]
    by (simp add: f flags_256 gradient_offset_no_head drop_bit_eq_div)
  show ?thesis using 1 2 by (simp add: drop_bit_eq_div)
qed

theorem fromBytes_gradient_size_counterexample:
  "fromBytes [0x80, 0x01, 0x05, 0x00, 0x02, 0x00, 0x00, 0xaa, 0x12]
     = Inr (new_message\<lparr>gradient := Some \<lparr>style = SCATTERED, colors = []\<rparr>, effectSpeed := Some 0x12\<rparr>)
   \<and> flags_of [0x80, 0x01, 0x05, 0x00, 0x02, 0x00, 0x00, 0xaa, 0x12] AND GRADIENT_COLORS \<noteq> 0
   \<and> gradient_offset (flags_of [0x80, 0x01, 0x05, 0x00, 0x02, 0x00, 0x00, 0xaa, 0x12]) = 2
   \<and> unat ([0x80, 0x01, 0x05, 0x00, 0x02, 0x00, 0x00, 0xaa, 0x12 :: byte] ! 2) = 5
   \<and> 4 + 3 * nat (drop_bit 4 (uint ([0x80, 0x01, 0x05, 0x00, 0x02, 0x00, 0x00, 0xaa, 0x12 :: byte] ! 3))) = 4"
proof -
  have f: "flags_of [0x80, 0x01, 0x05, 0x00, 0x02, 0x00, 0x00, 0xaa, 0x12 :: byte] = 384"
    by (simp add: flags_of_def)
  have d: "fromBytes [0x80, 0x01, 0x05, 0x00, 0x02, 0x00, 0x00, 0xaa, 0x12]
     = Inr (new_message\<lparr>gradient := Some \<lparr>style = SCATTERED, colors = []\<rparr>, effectSpeed := Some 0x12\<rparr>)"
    by (simp add: decode_steps flags_384 read_colors.simps drop_bit_eq_div SCATTERED_def)
  show ?thesis by (simp add: d f flags_384 gradient_offset_no_head)
qed

section \<open>Trailing bytes and unassigned flag bits\<close>

lemma seq_all_extends:
  "list_all2 extends fs gs \<Longrightarrow> extends (seq_all fs) (seq_all gs)"
proof (induction rule: list_all2_induct)
  case Nil
  then show ?case by (simp add: extends_def)
next
  case (Cons f fs g gs)
  show ?case
    unfolding extends_def
  proof (intro allI impI)
    fix s s' assume a: "seq_all (f # fs) s = Inr s'"
    then obtain s1 where s1: "f s = Inr s1" "seq_all fs s1 = Inr s'"
      by (auto split: sum.splits)
    then have "g s = Inr s1" "seq_all gs s1 = Inr s'"
      using Cons unfolding extends_def by blast+
    then show "seq_all (g # gs) s = Inr s'" by simp
  qed
qed

lemma getUint8_append: "getUint8 data off = Inr v \<Longrightarrow> getUint8 (data @ t) off = Inr v"
  by (auto simp add: getUint8_def nth_append split: if_splits)

lemma getUint16_append: "getUint16 data off = Inr v \<Longrightarrow> getUint16 (data @ t) off = Inr v"
  by (auto simp add: getUint16_def nth_append split: if_splits)

lemma subarray_append: "subarray data off n = Inr bs \<Longrightarrow> subarray (data @ t) off n = Inr bs"
  by (auto simp add: subarray_def split: if_splits)

lemma read_colors_append:
  "read_colors data a b = Inr cs \<Longrightarrow> read_colors (data @ t) a b = Inr cs"
proof (induction data a b arbitrary: cs rule: read_colors.induct)
  case (1 data colorOffset colorsEnd)
  show ?case
  proof (cases "colorOffset < colorsEnd")
    case False
    with "1.prems" show ?thesis by (simp add: read_colors.simps)
  next
    case True
    from "1.prems" True obtain bs sc cs' where
      bs: "subarray data colorOffset 3 = Inr bs" and
      sc: "HueLightColorXYScaled_fromBytes bs = Inr sc" and
      rest: "read_colors data (colorOffset + 3) colorsEnd = Inr cs'" and
      cs: "cs = fromScaled sc # cs'"
      by (subst (asm) read_colors.simps) (auto split: sum.splits)
    have "read_colors (data @ t) (colorOffset + 3) colorsEnd = Inr cs'"
      using "1.IH" [OF True bs sc rest] .
    then show ?thesis
      using True subarray_append [OF bs] sc cs
      by (subst read_colors.simps) simp
  qed
qed

lemma bindE_Inr_iff: "bindE x f = Inr y \<longleftrightarrow> (\<exists>v. x = Inr v \<and> f v = Inr y)"
  by (cases x) (simp_all add: bindE_def)

lemma extends_dec_isOn: "extends (dec_isOn flags data) (dec_isOn flags (data @ t))"
  unfolding extends_def dec_isOn_def
  by (auto simp add: bindE_Inr_iff getUint8_append split: if_splits)

lemma extends_dec_brightness: "extends (dec_brightness flags data) (dec_brightness flags (data @ t))"
  unfolding extends_def dec_brightness_def
  by (auto simp add: bindE_Inr_iff getUint8_append split: if_splits)

lemma extends_dec_colorTemp: "extends (dec_colorTemp flags data) (dec_colorTemp flags (data @ t))"
  unfolding extends_def dec_colorTemp_def
  by (auto simp add: bindE_Inr_iff getUint16_append split: if_splits)

lemma extends_dec_colorXY: "extends (dec_colorXY flags data) (dec_colorXY flags (data @ t))"
  unfolding extends_def dec_colorXY_def
  by (auto simp add: bindE_Inr_iff getUint16_append split: if_splits)

lemma extends_dec_transitionTime:
  "extends (dec_transitionTime flags data) (dec_transitionTime flags (data @ t))"
  unfolding extends_def dec_transitionTime_def
  by (auto simp add: bindE_Inr_iff getUint16_append split: if_splits)

lemma extends_dec_effect: "extends (dec_effect flags data) (dec_effect flags (data @ t))"
  unfolding extends_def dec_effect_def
  by (auto simp add: bindE_Inr_iff getUint8_append split: if_splits)

lemma extends_dec_effectSpeed: "extends (dec_effectSpeed flags data) (dec_effectSpeed flags (data @ t))"
  unfolding extends_def dec_effectSpeed_def
  by (auto simp add: bindE_Inr_iff getUint8_append split: if_splits)

lemma extends_dec_gradientParams:
  "extends (dec_gradientParams flags data) (dec_gradientParams flags (data @ t))"
  unfolding extends_def dec_gradientParams_def
  by (auto simp add: bindE_Inr_iff getUint8_append split: if_splits)

lemma extends_dec_gradient: "extends (dec_gradient flags data) (dec_gradient flags (data @ t))"
  unfolding extends_def
proof (intro allI impI)
  fix s s' :: reader
  obtain r off where s: "s = (r, off)" by (cases s)
  assume a: "dec_gradient flags data s = Inr s'"
  show "dec_gradient flags (data @ t) s = Inr s'"
  proof (cases "flags AND GRADIENT_COLORS = 0")
    case True
    with a have "s' = (r, off)" by (simp add: s dec_gradient_cases)
    with True show ?thesis unfolding s by (simp add: dec_gradient_cases)
  next
    case False
    define z where "z = nat (uint (data ! off))"
    define c where "c = nat (drop_bit 4 (uint (data ! (off + 1))))"
    note gc = dec_gradient_cases [of flags data r off, folded z_def c_def]
    from a False have c1: "\<not> length data \<le> off" "\<not> z < 4" "\<not> length data < off + z + 1"
        "\<not> z < 4 + 3 * c"
      unfolding s gc by (auto split: if_splits)
    with a False obtain cs where cs: "read_colors data (off + 5) (off + 5 + 3 * c) = Inr cs"
        and s': "s' = (r\<lparr>gradient := Some \<lparr>style = uint (data ! (off + 2)), colors = cs\<rparr>\<rparr>, off + z + 1)"
      unfolding s gc by (auto simp add: bindE_Inr_iff)
    have n: "(data @ t) ! off = data ! off" "(data @ t) ! (off + 1) = data ! (off + 1)"
        "(data @ t) ! (off + 2) = data ! (off + 2)"
      using c1 by (simp_all add: nth_append)
    show ?thesis
      unfolding s dec_gradient_cases [of flags "data @ t" r off] n z_def[symmetric] c_def[symmetric]
      using False c1 read_colors_append [OF cs, of t]
      by (simp add: bindE_def s')
  qed
qed

text \<open>
  C10. \<open>fromBytes\<close> does not require the buffer to be consumed: when it returns a message
  on a buffer \<open>b\<close>, it returns the same message on \<open>b\<close> followed by any bytes \<open>t\<close>.
\<close>

theorem fromBytes_trailing_bytes:
  "fromBytes b = Inr m \<Longrightarrow> fromBytes (b @ t) = Inr m"
proof -
  assume a: "fromBytes b = Inr m"
  then obtain flags s where g: "getUint16 b 0 = Inr flags"
    and sq: "seq_all [dec_isOn flags b, dec_brightness flags b, dec_colorTemp flags b,
                     dec_colorXY flags b, dec_transitionTime flags b, dec_effect flags b,
                     dec_gradient flags b, dec_effectSpeed flags b,
                     dec_gradientParams flags b] (new_message, 2) = Inr s"
    and m: "m = fst s"
    unfolding fromBytes_def by (auto simp add: bindE_Inr_iff split: prod.splits)
  have "extends
      (seq_all [dec_isOn flags b, dec_brightness flags b, dec_colorTemp flags b,
                     dec_colorXY flags b, dec_transitionTime flags b, dec_effect flags b,
                     dec_gradient flags b, dec_effectSpeed flags b,
                     dec_gradientParams flags b])
      (seq_all [dec_isOn flags (b @ t), dec_brightness flags (b @ t), dec_colorTemp flags (b @ t),
                     dec_colorXY flags (b @ t), dec_transitionTime flags (b @ t), dec_effect flags (b @ t),
                     dec_gradient flags (b @ t), dec_effectSpeed flags (b @ t),
                     dec_gradientParams flags (b @ t)])"
    by (intro seq_all_extends list.rel_intros extends_dec_isOn extends_dec_brightness
        extends_dec_colorTemp extends_dec_colorXY extends_dec_transitionTime extends_dec_effect
        extends_dec_gradient extends_dec_effectSpeed extends_dec_gradientParams)
  then have "seq_all [dec_isOn flags (b @ t), dec_brightness flags (b @ t), dec_colorTemp flags (b @ t),
                     dec_colorXY flags (b @ t), dec_transitionTime flags (b @ t), dec_effect flags (b @ t),
                     dec_gradient flags (b @ t), dec_effectSpeed flags (b @ t),
                     dec_gradientParams flags (b @ t)] (new_message, 2) = Inr s"
    using sq unfolding extends_def by blast
  then show ?thesis
    unfolding fromBytes_def using getUint16_append [OF g, of t] m
    by (simp add: bindE_def split: prod.splits)
qed

theorem fromBytes_trailing_bytes_witness:
  "fromBytes [0x03, 0x00, 0x01, 0x7f]
     = Inr (new_message\<lparr>isOn := Some True, brightness := Some (Finite 127)\<rparr>)
   \<and> fromBytes [0x03, 0x00, 0x01, 0x7f, 0xde, 0xad]
       = Inr (new_message\<lparr>isOn := Some True, brightness := Some (Finite 127)\<rparr>)"
proof -
  have d: "fromBytes [0x03, 0x00, 0x01, 0x7f]
     = Inr (new_message\<lparr>isOn := Some True, brightness := Some (Finite 127)\<rparr>)"
    by (simp add: decode_steps flags_3)
  from fromBytes_trailing_bytes [OF d, of "[0xde, 0xad]"] d show ?thesis by simp
qed

lemma seq_all_agree:
  "list_all2 agree_from2 fs gs \<Longrightarrow> agree_from2 (seq_all fs) (seq_all gs)"
proof (induction rule: list_all2_induct)
  case Nil
  then show ?case by (simp add: agree_from2_def)
next
  case (Cons f fs g gs)
  show ?case
    unfolding agree_from2_def
  proof (intro allI impI conjI)
    fix r off assume o: "(2::nat) \<le> off"
    have fg: "f (r, off) = g (r, off)" using Cons(1) o by (simp add: agree_from2_def)
    show "seq_all (f # fs) (r, off) = seq_all (g # gs) (r, off)"
    proof (cases "f (r, off)")
      case (Inl e)
      then show ?thesis using fg by simp
    next
      case (Inr s1)
      obtain r1 o1 where s1: "s1 = (r1, o1)" by (cases s1)
      have "2 \<le> o1" using Cons(1) o Inr s1 unfolding agree_from2_def by blast
      then have "seq_all fs (r1, o1) = seq_all gs (r1, o1)"
        using Cons.IH by (simp add: agree_from2_def)
      then show ?thesis using Inr fg s1 by simp
    qed
    fix r' off' assume a: "seq_all (f # fs) (r, off) = Inr (r', off')"
    then obtain r1 o1 where s1: "f (r, off) = Inr (r1, o1)" "seq_all fs (r1, o1) = Inr (r', off')"
      by (auto split: sum.splits)
    have "2 \<le> o1" using Cons(1) o s1 unfolding agree_from2_def by blast
    then show "2 \<le> off'" using Cons.IH s1 unfolding agree_from2_def by blast
  qed
qed

lemma getUint8_agree:
  assumes "length d' = length d" "\<And>i. 2 \<le> i \<Longrightarrow> d' ! i = d ! i" "2 \<le> off"
  shows "getUint8 d' off = getUint8 d off"
  using assms by (simp add: getUint8_def)

lemma getUint16_agree:
  assumes "length d' = length d" "\<And>i. 2 \<le> i \<Longrightarrow> d' ! i = d ! i" "2 \<le> off"
  shows "getUint16 d' off = getUint16 d off"
  using assms by (simp add: getUint16_def)

lemma subarray_agree:
  assumes "length d' = length d" "\<And>i. 2 \<le> i \<Longrightarrow> d' ! i = d ! i" "2 \<le> off"
  shows "subarray d' off n = subarray d off n"
proof -
  have "drop off d' = drop off d"
    using assms by (intro nth_equalityI) simp_all
  then show ?thesis using assms(1) by (simp add: subarray_def)
qed

lemma read_colors_agree:
  assumes "length d' = length d" "\<And>i. 2 \<le> i \<Longrightarrow> d' ! i = d ! i"
  shows "2 \<le> a \<Longrightarrow> read_colors d' a b = read_colors d a b"
proof (induction "b - a" arbitrary: a rule: less_induct)
  case less
  show ?case
  proof (cases "a < b")
    case False
    then show ?thesis by (simp add: read_colors.simps)
  next
    case True
    have sub: "subarray d' a 3 = subarray d a 3"
      using assms less.prems by (rule subarray_agree)
    have "b - (a + 3) < b - a" using True by simp
    then have rec: "read_colors d' (a + 3) b = read_colors d (a + 3) b"
      using less.prems by (intro less.hyps) simp_all
    have unf: "read_colors data a b =
        (case subarray data a 3 of Inl e \<Rightarrow> Inl e | Inr bs \<Rightarrow>
        (case HueLightColorXYScaled_fromBytes bs of Inl e \<Rightarrow> Inl e | Inr sc \<Rightarrow>
        (case read_colors data (a + 3) b of Inl e \<Rightarrow> Inl e | Inr cs \<Rightarrow>
           Inr (fromScaled sc # cs))))" for data
      using True by (subst read_colors.simps) simp
    show ?thesis
      unfolding unf [of d'] unf [of d] sub rec by (rule refl)
  qed
qed

lemma agree_isOn:
  assumes "length d' = length d" "\<And>i. 2 \<le> i \<Longrightarrow> d' ! i = d ! i"
    "(f' AND ON_OFF \<noteq> 0) = (f AND ON_OFF \<noteq> 0)"
  shows "agree_from2 (dec_isOn f' d') (dec_isOn f d)"
  unfolding agree_from2_def dec_isOn_def
  using assms(3) by (auto simp add: getUint8_agree [OF assms(1,2)] bindE_Inr_iff)

lemma agree_brightness:
  assumes "length d' = length d" "\<And>i. 2 \<le> i \<Longrightarrow> d' ! i = d ! i"
    "(f' AND BRIGHTNESS \<noteq> 0) = (f AND BRIGHTNESS \<noteq> 0)"
  shows "agree_from2 (dec_brightness f' d') (dec_brightness f d)"
  unfolding agree_from2_def dec_brightness_def
  using assms(3) by (auto simp add: getUint8_agree [OF assms(1,2)] bindE_Inr_iff)

lemma agree_colorTemp:
  assumes "length d' = length d" "\<And>i. 2 \<le> i \<Longrightarrow> d' ! i = d ! i"
    "(f' AND COLOR_MIRED \<noteq> 0) = (f AND COLOR_MIRED \<noteq> 0)"
  shows "agree_from2 (dec_colorTemp f' d') (dec_colorTemp f d)"
  unfolding agree_from2_def dec_colorTemp_def
  using assms(3) by (auto simp add: getUint16_agree [OF assms(1,2)] bindE_Inr_iff)

lemma agree_colorXY:
  assumes "length d' = length d" "\<And>i. 2 \<le> i \<Longrightarrow> d' ! i = d ! i"
    "(f' AND COLOR_XY \<noteq> 0) = (f AND COLOR_XY \<noteq> 0)"
  shows "agree_from2 (dec_colorXY f' d') (dec_colorXY f d)"
  unfolding agree_from2_def dec_colorXY_def
  using assms(3) by (auto simp add: getUint16_agree [OF assms(1,2)] bindE_Inr_iff)

lemma agree_transitionTime:
  assumes "length d' = length d" "\<And>i. 2 \<le> i \<Longrightarrow> d' ! i = d ! i"
    "(f' AND TRANSITION_TIME \<noteq> 0) = (f AND TRANSITION_TIME \<noteq> 0)"
  shows "agree_from2 (dec_transitionTime f' d') (dec_transitionTime f d)"
  unfolding agree_from2_def dec_transitionTime_def
  using assms(3) by (auto simp add: getUint16_agree [OF assms(1,2)] bindE_Inr_iff)

lemma agree_effect:
  assumes "length d' = length d" "\<And>i. 2 \<le> i \<Longrightarrow> d' ! i = d ! i"
    "(f' AND EFFECT \<noteq> 0) = (f AND EFFECT \<noteq> 0)"
  shows "agree_from2 (dec_effect f' d') (dec_effect f d)"
  unfolding agree_from2_def dec_effect_def
  using assms(3) by (auto simp add: getUint8_agree [OF assms(1,2)] bindE_Inr_iff)

lemma agree_effectSpeed:
  assumes "length d' = length d" "\<And>i. 2 \<le> i \<Longrightarrow> d' ! i = d ! i"
    "(f' AND EFFECT_SPEED \<noteq> 0) = (f AND EFFECT_SPEED \<noteq> 0)"
  shows "agree_from2 (dec_effectSpeed f' d') (dec_effectSpeed f d)"
  unfolding agree_from2_def dec_effectSpeed_def
  using assms(3) by (auto simp add: getUint8_agree [OF assms(1,2)] bindE_Inr_iff)

lemma agree_gradientParams:
  assumes "length d' = length d" "\<And>i. 2 \<le> i \<Longrightarrow> d' ! i = d ! i"
    "(f' AND GRADIENT_PARAMS \<noteq> 0) = (f AND GRADIENT_PARAMS \<noteq> 0)"
  shows "agree_from2 (dec_gradientParams f' d') (dec_gradientParams f d)"
  unfolding agree_from2_def dec_gradientParams_def
  using assms(3) by (auto simp add: getUint8_agree [OF assms(1,2)] bindE_Inr_iff)

lemma agree_gradient:
  assumes "length d' = length d" "\<And>i. 2 \<le> i \<Longrightarrow> d' ! i = d ! i"
    "(f' AND GRADIENT_COLORS \<noteq> 0) = (f AND GRADIENT_COLORS \<noteq> 0)"
  shows "agree_from2 (dec_gradient f' d') (dec_gradient f d)"
  unfolding agree_from2_def
proof (intro allI impI conjI)
  fix r off assume o: "(2::nat) \<le> off"
  have n: "d' ! off = d ! off" "d' ! (off + 1) = d ! (off + 1)" "d' ! (off + 2) = d ! (off + 2)"
    using o by (simp_all add: assms(2))
  have rc: "read_colors d' (off + 5) b = read_colors d (off + 5) b" for b
    using o by (intro read_colors_agree assms) simp_all
  have fl: "(f' AND GRADIENT_COLORS = 0) = (f AND GRADIENT_COLORS = 0)"
    using assms(3) by blast
  show "dec_gradient f' d' (r, off) = dec_gradient f d (r, off)"
    unfolding dec_gradient_cases n rc fl assms(1) by (rule refl)
  fix r' off' assume "dec_gradient f' d' (r, off) = Inr (r', off')"
  then show "2 \<le> off'"
    unfolding dec_gradient_cases using o by (auto simp add: bindE_Inr_iff split: if_splits)
qed


lemma flags_of_cleared:
  "flags_of (b0 # (b1 AND 1) # rest) = flags_of (b0 # b1 # rest) AND 0x1ff"
proof -
  define a where "a = uint b0"
  define b where "b = uint b1"
  have a: "0 \<le> a" "a < 256" using uint_bounded [of b0] by (simp_all add: a_def)
  have u: "uint (b1 AND 1) = b mod 2"
    by (simp add: b_def uint_and and_one_eq uint_mod_distrib flip: mod_2_eq_odd)
  have m: "(0x1ff::int) = mask 9" by (simp add: mask_eq_exp_minus_1)
  have "b = 2 * (b div 2) + b mod 2" by simp
  then have "a + 256 * b = (a + 256 * (b mod 2)) + 512 * (b div 2)" by linarith
  moreover have "0 \<le> a + 256 * (b mod 2)" "a + 256 * (b mod 2) < 512"
    using a by simp_all
  ultimately have "(a + 256 * b) mod 512 = a + 256 * (b mod 2)"
    by (metis mod_mult_self2 mod_pos_pos_trivial)
  then show ?thesis
    unfolding m by (simp add: flags_of_def u a_def b_def flip: take_bit_eq_mask add: take_bit_eq_mod)
qed


lemma fromBytes_flags:
  "2 \<le> length data \<Longrightarrow> fromBytes data =
     bindE (seq_all [dec_isOn (flags_of data) data, dec_brightness (flags_of data) data,
                     dec_colorTemp (flags_of data) data, dec_colorXY (flags_of data) data,
                     dec_transitionTime (flags_of data) data, dec_effect (flags_of data) data,
                     dec_gradient (flags_of data) data, dec_effectSpeed (flags_of data) data,
                     dec_gradientParams (flags_of data) data] (new_message, 2)) (\<lambda>(r, off). Inr r)"
  by (simp add: fromBytes_def getUint16_def flags_of_def bindE_def)

text \<open>
  C9. Bits 9 to 15 of the flag word are bits 1 to 7 of the second byte of the buffer.
  \<open>fromBytes\<close> gives the same result, error or message, on a buffer and on the same
  buffer with these bits cleared; the flag word of the cleared buffer is the flag word
  masked with \<open>0x1ff\<close>.
\<close>

theorem fromBytes_unassigned_flag_bits:
  "fromBytes (b0 # b1 # rest) = fromBytes (b0 # (b1 AND 1) # rest) \<and>
   flags_of (b0 # (b1 AND 1) # rest) = flags_of (b0 # b1 # rest) AND 0x1ff"
proof
  define d where "d = b0 # b1 # rest"
  define d' where "d' = b0 # (b1 AND 1) # rest"
  define f where "f = flags_of d"
  define f' where "f' = flags_of d'"
  have ff: "f' = f AND 511"
    unfolding f_def f'_def d_def d'_def using flags_of_cleared [of b0 b1 rest] by simp
  show "flags_of (b0 # (b1 AND 1) # rest) = flags_of (b0 # b1 # rest) AND 0x1ff"
    by (rule flags_of_cleared)
  have L: "length d' = length d" by (simp add: d_def d'_def)
  have N: "d' ! i = d ! i" if "2 \<le> i" for i
  proof -
    from that obtain j where "i = Suc (Suc j)" by (metis Suc_le_D numeral_2_eq_2 Suc_le_mono)
    then show ?thesis by (simp add: d_def d'_def)
  qed
  note t = and_511_single [of _ f]
  have T: "(f' AND ON_OFF \<noteq> 0) = (f AND ON_OFF \<noteq> 0)"
    "(f' AND BRIGHTNESS \<noteq> 0) = (f AND BRIGHTNESS \<noteq> 0)"
    "(f' AND COLOR_MIRED \<noteq> 0) = (f AND COLOR_MIRED \<noteq> 0)"
    "(f' AND COLOR_XY \<noteq> 0) = (f AND COLOR_XY \<noteq> 0)"
    "(f' AND TRANSITION_TIME \<noteq> 0) = (f AND TRANSITION_TIME \<noteq> 0)"
    "(f' AND EFFECT \<noteq> 0) = (f AND EFFECT \<noteq> 0)"
    "(f' AND GRADIENT_COLORS \<noteq> 0) = (f AND GRADIENT_COLORS \<noteq> 0)"
    "(f' AND EFFECT_SPEED \<noteq> 0) = (f AND EFFECT_SPEED \<noteq> 0)"
    "(f' AND GRADIENT_PARAMS \<noteq> 0) = (f AND GRADIENT_PARAMS \<noteq> 0)"
    unfolding ff ON_OFF_def BRIGHTNESS_def COLOR_MIRED_def COLOR_XY_def TRANSITION_TIME_def
      EFFECT_def GRADIENT_PARAMS_def EFFECT_SPEED_def GRADIENT_COLORS_def
    by (rule t, simp)+
  have "agree_from2
      (seq_all [dec_isOn f' d', dec_brightness f' d', dec_colorTemp f' d', dec_colorXY f' d',
                dec_transitionTime f' d', dec_effect f' d', dec_gradient f' d',
                dec_effectSpeed f' d', dec_gradientParams f' d'])
      (seq_all [dec_isOn f d, dec_brightness f d, dec_colorTemp f d, dec_colorXY f d,
                dec_transitionTime f d, dec_effect f d, dec_gradient f d,
                dec_effectSpeed f d, dec_gradientParams f d])"
    by (intro seq_all_agree list.rel_intros agree_isOn agree_brightness agree_colorTemp
        agree_colorXY agree_transitionTime agree_effect agree_gradient agree_effectSpeed
        agree_gradientParams L N T)
  then have "seq_all [dec_isOn f' d', dec_brightness f' d', dec_colorTemp f' d', dec_colorXY f' d',
                dec_transitionTime f' d', dec_effect f' d', dec_gradient f' d',
                dec_effectSpeed f' d', dec_gradientParams f' d'] (new_message, 2)
      = seq_all [dec_isOn f d, dec_brightness f d, dec_colorTemp f d, dec_colorXY f d,
                dec_transitionTime f d, dec_effect f d, dec_gradient f d,
                dec_effectSpeed f d, dec_gradientParams f d] (new_message, 2)"
    unfolding agree_from2_def by simp
  moreover have "2 \<le> length d" "2 \<le> length d'" by (simp_all add: d_def d'_def)
  ultimately have "fromBytes d = fromBytes d'"
    by (simp add: fromBytes_flags f_def f'_def)
  then show "fromBytes (b0 # b1 # rest) = fromBytes (b0 # (b1 AND 1) # rest)"
    by (simp add: d_def d'_def)
qed

theorem fromBytes_unassigned_flag_bits_witness:
  "fromBytes [0x01, 0xfe, 0x01] = Inr (new_message\<lparr>isOn := Some True\<rparr>)"
proof -
  have c: "(0xfe :: byte) AND 1 = 0" by simp
  have g: "(1::int) AND ON_OFF \<noteq> 0" "(1::int) AND BRIGHTNESS = 0" "(1::int) AND COLOR_MIRED = 0"
    "(1::int) AND COLOR_XY = 0" "(1::int) AND TRANSITION_TIME = 0" "(1::int) AND EFFECT = 0"
    "(1::int) AND GRADIENT_COLORS = 0" "(1::int) AND EFFECT_SPEED = 0" "(1::int) AND GRADIENT_PARAMS = 0"
    by (simp_all add: GRADIENT_COLORS_def ON_OFF_def BRIGHTNESS_def COLOR_MIRED_def COLOR_XY_def
        TRANSITION_TIME_def EFFECT_def EFFECT_SPEED_def GRADIENT_PARAMS_def)
  have d: "fromBytes [0x01, 0x00, 0x01] = Inr (new_message\<lparr>isOn := Some True\<rparr>)"
    by (simp add: decode_steps g)
  from fromBytes_unassigned_flag_bits [of "0x01" "0xfe" "[0x01]"] show ?thesis
    unfolding c d by (rule conjunct1)
qed

section \<open>Decoding what \<open>toBytes\<close> wrote\<close>

lemma upd_None:
  "isOn r = None \<Longrightarrow> r\<lparr>isOn := None\<rparr> = r"
  "brightness r = None \<Longrightarrow> r\<lparr>brightness := None\<rparr> = r"
  "colorTemp r = None \<Longrightarrow> r\<lparr>colorTemp := None\<rparr> = r"
  "colorXY r = None \<Longrightarrow> r\<lparr>colorXY := None\<rparr> = r"
  "transitionTime r = None \<Longrightarrow> r\<lparr>transitionTime := None\<rparr> = r"
  "effect r = None \<Longrightarrow> r\<lparr>effect := None\<rparr> = r"
  "effectSpeed r = None \<Longrightarrow> r\<lparr>effectSpeed := None\<rparr> = r"
  "gradient r = None \<Longrightarrow> r\<lparr>gradient := None\<rparr> = r"
  "gradientParams r = None \<Longrightarrow> r\<lparr>gradientParams := None\<rparr> = r"
  by (cases r, simp)+

lemma dec_isOn_at:
  assumes "data = pre @ b_isOn m @ post" "(flags AND ON_OFF \<noteq> 0) = (isOn m \<noteq> None)" "isOn r = None"
  shows "dec_isOn flags data (r, length pre) =
           Inr (r\<lparr>isOn := isOn (wire_image m)\<rparr>, length (pre @ b_isOn m))"
proof (cases "isOn m")
  case None
  then show ?thesis
    using assms by (simp add: dec_isOn_def b_isOn_def wire_image_def upd_None)
next
  case (Some v)
  have "getUint8 (pre @ ToUint8 (if v then 1 else 0) # post) (length pre)
      = Inr (uint (ToUint8 (if v then 1 else 0)))"
    by (rule getUint8_at) simp
  then show ?thesis
    using assms Some
    by (simp add: dec_isOn_def b_isOn_def wire_image_def bindE_def uint_ToUint8)
qed

lemma dec_brightness_at:
  assumes "data = pre @ b_brightness m @ post" "(flags AND BRIGHTNESS \<noteq> 0) = (brightness m \<noteq> None)"
    "brightness r = None"
  shows "dec_brightness flags data (r, length pre) =
           Inr (r\<lparr>brightness := brightness (wire_image m)\<rparr>, length (pre @ b_brightness m))"
proof (cases "brightness m")
  case None
  then show ?thesis
    using assms by (simp add: dec_brightness_def b_brightness_def wire_image_def upd_None)
next
  case (Some v)
  have "getUint8 (pre @ ToUint8 (ToIntegerOrZero v) # post) (length pre)
      = Inr (uint (ToUint8 (ToIntegerOrZero v)))"
    by (rule getUint8_at) simp
  then show ?thesis
    using assms Some
    by (simp add: dec_brightness_def b_brightness_def wire_image_def bindE_def uint_ToUint8)
qed

lemma dec_effect_at:
  assumes "data = pre @ b_effect m @ post" "(flags AND EFFECT \<noteq> 0) = (effect m \<noteq> None)"
    "effect r = None"
  shows "dec_effect flags data (r, length pre) =
           Inr (r\<lparr>effect := effect (wire_image m)\<rparr>, length (pre @ b_effect m))"
proof (cases "effect m")
  case None
  then show ?thesis
    using assms by (simp add: dec_effect_def b_effect_def wire_image_def upd_None)
next
  case (Some v)
  have "getUint8 (pre @ ToUint8 v # post) (length pre) = Inr (uint (ToUint8 v))"
    by (rule getUint8_at) simp
  then show ?thesis
    using assms Some
    by (simp add: dec_effect_def b_effect_def wire_image_def bindE_def uint_ToUint8)
qed

lemma dec_effectSpeed_at:
  assumes "data = pre @ b_effectSpeed m @ post" "(flags AND EFFECT_SPEED \<noteq> 0) = (effectSpeed m \<noteq> None)"
    "effectSpeed r = None"
  shows "dec_effectSpeed flags data (r, length pre) =
           Inr (r\<lparr>effectSpeed := effectSpeed (wire_image m)\<rparr>, length (pre @ b_effectSpeed m))"
proof (cases "effectSpeed m")
  case None
  then show ?thesis
    using assms by (simp add: dec_effectSpeed_def b_effectSpeed_def wire_image_def upd_None)
next
  case (Some v)
  have "getUint8 (pre @ ToUint8 v # post) (length pre) = Inr (uint (ToUint8 v))"
    by (rule getUint8_at) simp
  then show ?thesis
    using assms Some
    by (simp add: dec_effectSpeed_def b_effectSpeed_def wire_image_def bindE_def uint_ToUint8)
qed

lemma dec_colorTemp_at:
  assumes "data = pre @ b_colorTemp m @ post" "(flags AND COLOR_MIRED \<noteq> 0) = (colorTemp m \<noteq> None)"
    "colorTemp r = None"
  shows "dec_colorTemp flags data (r, length pre) =
           Inr (r\<lparr>colorTemp := colorTemp (wire_image m)\<rparr>, length (pre @ b_colorTemp m))"
proof (cases "colorTemp m")
  case None
  then show ?thesis
    using assms by (simp add: dec_colorTemp_def b_colorTemp_def wire_image_def upd_None)
next
  case (Some t)
  have "getUint16 (pre @ u16le (mired t) @ post) (length pre) = Inr (ToUint16 (mired t))"
    by (rule getUint16_u16le) simp
  then show ?thesis
    using assms Some
    by (simp add: dec_colorTemp_def b_colorTemp_def wire_image_def bindE_def ToUint16_def length_u16le)
qed

lemma dec_transitionTime_at:
  assumes "data = pre @ b_transitionTime m @ post"
    "(flags AND TRANSITION_TIME \<noteq> 0) = (transitionTime m \<noteq> None)" "transitionTime r = None"
  shows "dec_transitionTime flags data (r, length pre) =
           Inr (r\<lparr>transitionTime := transitionTime (wire_image m)\<rparr>, length (pre @ b_transitionTime m))"
proof (cases "transitionTime m")
  case None
  then show ?thesis
    using assms by (simp add: dec_transitionTime_def b_transitionTime_def wire_image_def upd_None)
next
  case (Some t)
  have "getUint16 (pre @ u16le t @ post) (length pre) = Inr (ToUint16 t)"
    by (rule getUint16_u16le) simp
  then show ?thesis
    using assms Some
    by (simp add: dec_transitionTime_def b_transitionTime_def wire_image_def bindE_def ToUint16_def
        length_u16le)
qed


lemma dec_colorXY_at:
  assumes "data = pre @ b_colorXY m @ post" "(flags AND COLOR_XY \<noteq> 0) = (colorXY m \<noteq> None)"
    "colorXY r = None"
  shows "dec_colorXY flags data (r, length pre) =
           Inr (r\<lparr>colorXY := colorXY (wire_image m)\<rparr>, length (pre @ b_colorXY m))"
proof (cases "colorXY m")
  case None
  then show ?thesis
    using assms by (simp add: dec_colorXY_def b_colorXY_def wire_image_def upd_None)
next
  case (Some c)
  let ?vx = "js_trunc (fl (cx c * 0xffff))" and ?vy = "js_trunc (fl (cy c * 0xffff))"
  have 1: "getUint16 (pre @ u16le ?vx @ u16le ?vy @ post) (length pre) = Inr (ToUint16 ?vx)"
    by (rule getUint16_u16le) simp
  have "getUint16 ((pre @ u16le ?vx) @ u16le ?vy @ post) (length pre + 2) = Inr (ToUint16 ?vy)"
    by (rule getUint16_u16le) (simp add: length_u16le)
  then have 2: "getUint16 (pre @ u16le ?vx @ u16le ?vy @ post) (Suc (Suc (length pre))) = Inr (ToUint16 ?vy)"
    by simp
  show ?thesis
    using assms Some
    by (simp add: dec_colorXY_def b_colorXY_def wire_image_def bindE_def ToUint16_def length_u16le 1 2)
qed

lemma dec_gradientParams_at:
  assumes "data = pre @ b_gradientParams m @ post"
    "(flags AND GRADIENT_PARAMS \<noteq> 0) = (gradientParams m \<noteq> None)" "gradientParams r = None"
  shows "dec_gradientParams flags data (r, length pre) =
           Inr (r\<lparr>gradientParams := gradientParams (wire_image m)\<rparr>, length (pre @ b_gradientParams m))"
proof (cases "gradientParams m")
  case None
  then show ?thesis
    using assms by (simp add: dec_gradientParams_def b_gradientParams_def wire_image_def upd_None)
next
  case (Some p)
  let ?a = "ToUint8 (js_trunc (fl (scale p * 8)))" and ?b = "ToUint8 (js_trunc (fl (offset p * 8)))"
  have 1: "getUint8 (pre @ ?a # ?b # post) (length pre) = Inr (uint ?a)"
    by (rule getUint8_at) simp
  have "getUint8 ((pre @ [?a]) @ ?b # post) (length pre + 1) = Inr (uint ?b)"
    by (rule getUint8_at) simp
  then have 2: "getUint8 (pre @ ?a # ?b # post) (Suc (length pre)) = Inr (uint ?b)"
    by simp
  show ?thesis
    using assms Some
    by (simp add: dec_gradientParams_def b_gradientParams_def wire_image_def bindE_def uint_ToUint8 1 2)
qed

lemma fl_4095: "fl 4095 = 4095"
  using fl_of_int [of 4095] by simp

lemma js_trunc_clamp_range:
  "0 \<le> js_trunc (fl (0xfff * max 0 (min u 1))) \<and> js_trunc (fl (0xfff * max 0 (min u 1))) \<le> 4095"
proof -
  define v where "v = 0xfff * max 0 (min u 1)"
  have v: "0 \<le> v" "v \<le> 4095" by (simp_all add: v_def)
  have f: "0 \<le> fl v" "fl v \<le> 4095"
    using fl_nonneg [OF v(1)] fl_mono_nonneg [OF v] by (simp_all add: fl_4095)
  then have "0 \<le> \<lfloor>fl v\<rfloor>" "\<lfloor>fl v\<rfloor> \<le> 4095" by linarith+
  then show ?thesis using f by (simp add: js_trunc_def v_def[symmetric])
qed

lemma toScaled_range:
  "0 \<le> sx (toScaled c) \<and> sx (toScaled c) \<le> 4095 \<and> 0 \<le> sy (toScaled c) \<and> sy (toScaled c) \<le> 4095"
  using js_trunc_clamp_range [of "fl (cx c / SCALING_MAX_X)"]
    js_trunc_clamp_range [of "fl (cy c / SCALING_MAX_Y)"]
  by (simp add: toScaled_def)

lemma fromBytes_color_bytes:
  "HueLightColorXYScaled_fromBytes (color_bytes c) = Inr (toScaled c)"
proof -
  obtain x y where t: "toScaled c = \<lparr>sx = x, sy = y\<rparr>"
    by (cases "toScaled c") auto
  have "0 \<le> x \<and> x \<le> 4095 \<and> 0 \<le> y \<and> y \<le> 4095"
    using toScaled_range [of c] by (simp add: t)
  then show ?thesis
    unfolding color_bytes_def t by (rule scaled_roundtrip)
qed

lemma read_colors_encoded:
  "length pre = a \<Longrightarrow>
   read_colors (pre @ concat (map color_bytes cs) @ post) a (a + 3 * length cs)
     = Inr (map (\<lambda>c. fromScaled (toScaled c)) cs)"
proof (induction cs arbitrary: pre a)
  case Nil
  then show ?case by (simp add: read_colors.simps)
next
  case (Cons c cs)
  have sub: "subarray (pre @ concat (map color_bytes (c # cs)) @ post) a 3 = Inr (color_bytes c)"
    using Cons.prems by (simp add: subarray_def length_color_bytes length_concat_color_bytes)
  have "read_colors ((pre @ color_bytes c) @ concat (map color_bytes cs) @ post) (a + 3)
      ((a + 3) + 3 * length cs) = Inr (map (\<lambda>c. fromScaled (toScaled c)) cs)"
    using Cons.prems by (intro Cons.IH) (simp add: length_color_bytes)
  then have rec: "read_colors (pre @ concat (map color_bytes (c # cs)) @ post) (a + 3)
      (a + 3 * length (c # cs)) = Inr (map (\<lambda>c. fromScaled (toScaled c)) cs)"
    by (simp add: add.assoc)
  have lt: "a < a + 3 * length (c # cs)" by simp
  have unf: "read_colors data a (a + 3 * length (c # cs)) =
      (case subarray data a 3 of Inl e \<Rightarrow> Inl e | Inr bs \<Rightarrow>
      (case HueLightColorXYScaled_fromBytes bs of Inl e \<Rightarrow> Inl e | Inr sc \<Rightarrow>
      (case read_colors data (a + 3) (a + 3 * length (c # cs)) of Inl e \<Rightarrow> Inl e | Inr cs \<Rightarrow>
         Inr (fromScaled sc # cs))))" for data
    using lt by (subst read_colors.simps) simp
  show ?case
    unfolding unf sub rec by (simp add: fromBytes_color_bytes)
qed


lemma dec_gradient_at:
  assumes d: "data = pre @ b_gradient m @ post"
    and fg: "(flags AND GRADIENT_COLORS \<noteq> 0) = (gradient m \<noteq> None)"
    and r: "gradient r = None"
    and n15: "\<forall>g. gradient m = Some g \<longrightarrow> length (colors g) \<le> 15"
  shows "dec_gradient flags data (r, length pre) =
           Inr (r\<lparr>gradient := gradient (wire_image m)\<rparr>, length (pre @ b_gradient m))"
proof (cases "gradient m")
  case None
  then show ?thesis
    using d fg r by (simp add: dec_gradient_cases b_gradient_def wire_image_def upd_None)
next
  case (Some g)
  define n where "n = length (colors g)"
  have n: "n \<le> 15" using n15 Some by (simp add: n_def)
  define B0 where "B0 = ToUint8 (4 + 3 * int n)"
  define B1 where "B1 = ToUint8 (push_bit 4 (int n))"
  define B2 where "B2 = ToUint8 (style g)"
  define body where "body = concat (map color_bytes (colors g))"
  have lb: "length body = 3 * n" by (simp add: body_def n_def length_concat_color_bytes)
  have bg: "b_gradient m = [B0, B1, B2, 0, 0] @ body"
    using Some by (simp add: b_gradient_def B0_def B1_def B2_def body_def n_def)
  have data: "data = pre @ B0 # B1 # B2 # 0 # 0 # body @ post"
    using d by (simp add: bg)
  have e0: "data ! length pre = B0" by (simp add: data)
  have e1: "data ! (length pre + 1) = B1" by (simp add: data nth_append)
  have e2: "data ! (length pre + 2) = B2" by (simp add: data nth_append)
  have u0: "nat (uint B0) = 4 + 3 * n"
  proof -
    have "(4 + 3 * int n) mod 256 = 4 + 3 * int n" using n by simp
    then show ?thesis by (simp add: B0_def uint_ToUint8)
  qed
  have u1: "nat (drop_bit 4 (uint B1)) = n"
  proof -
    have "(16 * int n) mod 256 = 16 * int n" using n by simp
    then have "uint B1 = 16 * int n" by (simp add: B1_def uint_ToUint8 push_bit_eq_mult mult.commute)
    then show ?thesis by (simp add: drop_bit_eq_div)
  qed
  have u2: "uint B2 = style g mod 256" by (simp add: B2_def uint_ToUint8)
  have len: "length data = length pre + 5 + 3 * n + length post" by (simp add: data lb)
  have "read_colors ((pre @ [B0, B1, B2, 0, 0]) @ concat (map color_bytes (colors g)) @ post)
      (length pre + 5) ((length pre + 5) + 3 * length (colors g))
      = Inr (map (\<lambda>c. fromScaled (toScaled c)) (colors g))"
    by (rule read_colors_encoded) simp
  then have rc: "read_colors data (length pre + 5) (length pre + 5 + 3 * n)
      = Inr (map (\<lambda>c. fromScaled (toScaled c)) (colors g))"
    by (simp add: data body_def n_def)
  have f: "flags AND GRADIENT_COLORS \<noteq> 0" using fg Some by simp
  have w: "gradient (wire_image m)
      = Some \<lparr>style = style g mod 256, colors = map (\<lambda>c. fromScaled (toScaled c)) (colors g)\<rparr>"
    using Some by (simp add: wire_image_def)
  show ?thesis
    unfolding dec_gradient_cases e0 e1 e2 u0 u1 u2 rc w
    using f len by (simp add: bindE_def bg lb)
qed


lemma ToUint16_flag_word: "ToUint16 (flag_word m) = flag_word m"
  using flag_word_range [of m] by (simp add: ToUint16_def)

lemma fromBytes_encoded:
  assumes n15: "\<forall>g. gradient m = Some g \<longrightarrow> length (colors g) \<le> 15"
  shows "fromBytes (u16le (flag_word m) @ payload m) = Inr (wire_image m)"
proof -
  define F where "F = flag_word m"
  define data where "data = u16le F @ payload m"
  define w where "w = wire_image m"
  let ?p0 = "u16le F"
  let ?p1 = "?p0 @ b_isOn m"
  let ?p2 = "?p1 @ b_brightness m"
  let ?p3 = "?p2 @ b_colorTemp m"
  let ?p4 = "?p3 @ b_colorXY m"
  let ?p5 = "?p4 @ b_transitionTime m"
  let ?p6 = "?p5 @ b_effect m"
  let ?p7 = "?p6 @ b_gradient m"
  let ?p8 = "?p7 @ b_effectSpeed m"
  let ?p9 = "?p8 @ b_gradientParams m"
  let ?q9 = "[] :: byte list"
  let ?q8 = "b_gradientParams m @ ?q9"
  let ?q7 = "b_effectSpeed m @ ?q8"
  let ?q6 = "b_gradient m @ ?q7"
  let ?q5 = "b_effect m @ ?q6"
  let ?q4 = "b_transitionTime m @ ?q5"
  let ?q3 = "b_colorXY m @ ?q4"
  let ?q2 = "b_colorTemp m @ ?q3"
  let ?q1 = "b_brightness m @ ?q2"
  have len2: "2 \<le> length data" by (simp add: data_def length_u16le)
  have "getUint16 ([] @ u16le F @ payload m) 0 = Inr (ToUint16 F)"
    by (rule getUint16_u16le) simp
  then have fo: "flags_of data = F"
    using len2 by (simp add: data_def getUint16_def flags_of_def F_def ToUint16_flag_word)
  note ft = flag_word_tests [of m, folded F_def]
  define r0 where "r0 = new_message"
  define r1 where "r1 = r0\<lparr>isOn := isOn w\<rparr>"
  define r2 where "r2 = r1\<lparr>brightness := brightness w\<rparr>"
  define r3 where "r3 = r2\<lparr>colorTemp := colorTemp w\<rparr>"
  define r4 where "r4 = r3\<lparr>colorXY := colorXY w\<rparr>"
  define r5 where "r5 = r4\<lparr>transitionTime := transitionTime w\<rparr>"
  define r6 where "r6 = r5\<lparr>effect := effect w\<rparr>"
  define r7 where "r7 = r6\<lparr>gradient := gradient w\<rparr>"
  define r8 where "r8 = r7\<lparr>effectSpeed := effectSpeed w\<rparr>"
  define r9 where "r9 = r8\<lparr>gradientParams := gradientParams w\<rparr>"
  have d1: "data = ?p0 @ b_isOn m @ ?q1"
    by (simp add: data_def payload_def)
  have n1: "isOn r0 = None"
    by (simp add: r0_def new_message_def)
  have e1: "dec_isOn F data (r0, length ?p0) = Inr (r1, length ?p1)"
    unfolding r1_def w_def by (rule dec_isOn_at [OF d1 ft(1) n1])
  have d2: "data = ?p1 @ b_brightness m @ ?q2"
    by (simp add: data_def payload_def)
  have n2: "brightness r1 = None"
    by (simp add: r1_def r0_def new_message_def)
  have e2: "dec_brightness F data (r1, length ?p1) = Inr (r2, length ?p2)"
    unfolding r2_def w_def by (rule dec_brightness_at [OF d2 ft(2) n2])
  have d3: "data = ?p2 @ b_colorTemp m @ ?q3"
    by (simp add: data_def payload_def)
  have n3: "colorTemp r2 = None"
    by (simp add: r2_def r1_def r0_def new_message_def)
  have e3: "dec_colorTemp F data (r2, length ?p2) = Inr (r3, length ?p3)"
    unfolding r3_def w_def by (rule dec_colorTemp_at [OF d3 ft(3) n3])
  have d4: "data = ?p3 @ b_colorXY m @ ?q4"
    by (simp add: data_def payload_def)
  have n4: "colorXY r3 = None"
    by (simp add: r3_def r2_def r1_def r0_def new_message_def)
  have e4: "dec_colorXY F data (r3, length ?p3) = Inr (r4, length ?p4)"
    unfolding r4_def w_def by (rule dec_colorXY_at [OF d4 ft(4) n4])
  have d5: "data = ?p4 @ b_transitionTime m @ ?q5"
    by (simp add: data_def payload_def)
  have n5: "transitionTime r4 = None"
    by (simp add: r4_def r3_def r2_def r1_def r0_def new_message_def)
  have e5: "dec_transitionTime F data (r4, length ?p4) = Inr (r5, length ?p5)"
    unfolding r5_def w_def by (rule dec_transitionTime_at [OF d5 ft(5) n5])
  have d6: "data = ?p5 @ b_effect m @ ?q6"
    by (simp add: data_def payload_def)
  have n6: "effect r5 = None"
    by (simp add: r5_def r4_def r3_def r2_def r1_def r0_def new_message_def)
  have e6: "dec_effect F data (r5, length ?p5) = Inr (r6, length ?p6)"
    unfolding r6_def w_def by (rule dec_effect_at [OF d6 ft(6) n6])
  have d7: "data = ?p6 @ b_gradient m @ ?q7"
    by (simp add: data_def payload_def)
  have n7: "gradient r6 = None"
    by (simp add: r6_def r5_def r4_def r3_def r2_def r1_def r0_def new_message_def)
  have e7: "dec_gradient F data (r6, length ?p6) = Inr (r7, length ?p7)"
    unfolding r7_def w_def by (rule dec_gradient_at [OF d7 ft(9) n7 n15])
  have d8: "data = ?p7 @ b_effectSpeed m @ ?q8"
    by (simp add: data_def payload_def)
  have n8: "effectSpeed r7 = None"
    by (simp add: r7_def r6_def r5_def r4_def r3_def r2_def r1_def r0_def new_message_def)
  have e8: "dec_effectSpeed F data (r7, length ?p7) = Inr (r8, length ?p8)"
    unfolding r8_def w_def by (rule dec_effectSpeed_at [OF d8 ft(8) n8])
  have d9: "data = ?p8 @ b_gradientParams m @ ?q9"
    by (simp add: data_def payload_def)
  have n9: "gradientParams r8 = None"
    by (simp add: r8_def r7_def r6_def r5_def r4_def r3_def r2_def r1_def r0_def new_message_def)
  have e9: "dec_gradientParams F data (r8, length ?p8) = Inr (r9, length ?p9)"
    unfolding r9_def w_def by (rule dec_gradientParams_at [OF d9 ft(7) n9])
  have l0: "length ?p0 = 2" by (simp add: length_u16le)
  have "seq_all [dec_isOn F data, dec_brightness F data, dec_colorTemp F data, dec_colorXY F data,
                 dec_transitionTime F data, dec_effect F data, dec_gradient F data,
                 dec_effectSpeed F data, dec_gradientParams F data] (r0, 2) = Inr (r9, length ?p9)"
    using e1 e2 e3 e4 e5 e6 e7 e8 e9 unfolding l0 [symmetric] by (simp only: seq_all.simps sum.case)
  then have "fromBytes data = Inr r9"
    by (simp add: fromBytes_flags [OF len2] fo r0_def bindE_def)
  moreover have "r9 = w"
    unfolding r9_def r8_def r7_def r6_def r5_def r4_def r3_def r2_def r1_def r0_def new_message_def
    by (cases w) simp
  ultimately show ?thesis by (simp add: data_def F_def w_def)
qed

section \<open>Double arithmetic of the coordinates\<close>

text \<open>The two scaling constants as the doubles they are.\<close>

lemma SCALING_MAX_X_val: "SCALING_MAX_X = 6617589292458207 / 9007199254740992"
proof -
  have "fl 0.7347 = of_int 6617589292458207 / 2 ^ 53"
    by (rule fl_is) simp_all
  then show ?thesis by (simp add: SCALING_MAX_X_def)
qed

lemma SCALING_MAX_Y_val: "SCALING_MAX_Y = 7443549464117956 / 9007199254740992"
proof -
  have "fl 0.8264 = of_int 7443549464117956 / 2 ^ 53"
    by (rule fl_is) simp_all
  then show ?thesis by (simp add: SCALING_MAX_Y_def)
qed

lemma fl_SCALING_MAX: "fl SCALING_MAX_X = SCALING_MAX_X" "fl SCALING_MAX_Y = SCALING_MAX_Y"
  using fl_exact [of 6617589292458207 53] fl_exact [of 7443549464117956 53]
  by (simp_all add: SCALING_MAX_X_val SCALING_MAX_Y_val)

lemma SCALING_MAX_bounds:
  "0 < SCALING_MAX_X" "SCALING_MAX_X \<le> 1" "0 < SCALING_MAX_Y" "SCALING_MAX_Y \<le> 1"
  by (simp_all add: SCALING_MAX_X_val SCALING_MAX_Y_val)

lemma tiny_le_1: "(2::real) powr (- 1022) \<le> 1"
  by (simp add: powr_minus_divide)

lemma fl_unit:
  assumes "0 \<le> y" "y \<le> 1"
  shows "0 \<le> fl y" "fl y \<le> 1" "\<bar>fl y - y\<bar> \<le> 1 / 2 ^ 53"
proof -
  show "0 \<le> fl y" using assms(1) by (rule fl_nonneg)
  show "fl y \<le> 1" using fl_mono_nonneg [OF assms] by (simp add: fl_1)
  show "\<bar>fl y - y\<bar> \<le> 1 / 2 ^ 53"
    using fl_err_bound [of y 1] assms tiny_le_1 by simp
qed

text \<open>
  The 12-bit quantization of \<open>toScaled\<close> followed by \<open>fromScaled\<close>, on one coordinate with
  the maximum \<open>M\<close> of its axis: four rounded operations and one truncation.
\<close>

lemma scaled_coordinate_close:
  fixes x M :: real
  assumes M: "0 < M" "M \<le> 1" "fl M = M"
    and x: "- (M / 4095 + 4 / 2 ^ 53) \<le> x" "x \<le> M + (M / 4095 + 4 / 2 ^ 53)"
  shows "\<bar>fl (fl (of_int (js_trunc (fl (0xfff * max 0 (min (fl (x / M)) 1)))) / 0xfff) * M) - x\<bar>
           \<le> M / 4095 + 4 / 2 ^ 53"
proof -
  consider (neg) "x < 0" | (mid) "0 \<le> x" "x \<le> M" | (big) "M < x" by linarith
  then show ?thesis
  proof cases
    case neg
    then have "x / M \<le> 0" using M(1) by (simp add: divide_le_0_iff)
    then have "fl (x / M) \<le> 0" by (rule fl_nonpos)
    then have c: "max 0 (min (fl (x / M)) 1) = 0" by simp
    have "fl (fl (of_int (js_trunc (fl (0xfff * max 0 (min (fl (x / M)) 1)))) / 0xfff) * M) = 0"
      unfolding c by (simp add: fl_0 js_trunc_def)
    then show ?thesis using neg x(1) M(1) by simp
  next
    case big
    then have "1 \<le> x / M" using M(1) by simp
    then have "fl 1 \<le> fl (x / M)" by (intro fl_mono_nonneg) simp_all
    then have c: "max 0 (min (fl (x / M)) 1) = 1" by (simp add: fl_1)
    have "fl (fl (of_int (js_trunc (fl (0xfff * max 0 (min (fl (x / M)) 1)))) / 0xfff) * M) = M"
      unfolding c by (simp add: fl_4095 js_trunc_def fl_1 M(3))
    then show ?thesis using big x(2) M(1) by simp
  next
    case mid
    define a where "a = x / M"
    define y1 where "y1 = fl a"
    define y2 where "y2 = fl (4095 * y1)"
    define k where "k = \<lfloor>y2\<rfloor>"
    define q where "q = real_of_int k / 4095"
    define d1 where "d1 = fl q"
    define d2 where "d2 = fl (d1 * M)"
    have a: "0 \<le> a" "a \<le> 1" using mid M(1) by (simp_all add: a_def)
    note y1 = fl_unit [OF a, folded y1_def]
    have b: "0 \<le> 4095 * y1" "4095 * y1 \<le> 4095" using y1 by simp_all
    have y2: "0 \<le> y2" "y2 \<le> 4095"
      using fl_nonneg [OF b(1)] fl_mono_nonneg [OF b] by (simp_all add: y2_def fl_4095)
    have e2: "\<bar>y2 - 4095 * y1\<bar> \<le> 4095 / 2 ^ 53"
      unfolding y2_def using fl_err_bound [of "4095 * y1" 4095] b tiny_le_1 by simp
    have k: "0 \<le> k" "k \<le> 4095" "real_of_int k \<le> y2" "y2 < real_of_int k + 1"
      using y2 unfolding k_def by linarith+
    have q: "0 \<le> q" "q \<le> 1" using k by (simp_all add: q_def)
    note d1 = fl_unit [OF q, folded d1_def]
    have p: "0 \<le> d1 * M" "d1 * M \<le> 1"
      using d1 M by (simp_all add: mult_le_one)
    note d2 = fl_unit [OF p, folded d2_def]
    have c: "max 0 (min y1 1) = y1" using y1 by simp
    have t: "js_trunc y2 = k" using y2 by (simp add: js_trunc_def k_def)
    have res: "fl (fl (of_int (js_trunc (fl (0xfff * max 0 (min (fl (x / M)) 1)))) / 0xfff) * M) = d2"
      by (simp add: a_def[symmetric] y1_def[symmetric] c y2_def[symmetric] t q_def[symmetric]
          d1_def[symmetric] d2_def[symmetric])
    have xa: "x = a * M" using M(1) by (simp add: a_def)
    have split: "d2 - x = (d2 - d1 * M) + (d1 - q) * M + (real_of_int k - y2) * (M / 4095)
        + (y2 - 4095 * y1) * (M / 4095) + (y1 - a) * M"
      unfolding xa q_def by (simp add: field_simps)
    have t1: "\<bar>(d1 - q) * M\<bar> \<le> 1 / 2 ^ 53"
    proof -
      have "\<bar>(d1 - q) * M\<bar> = \<bar>d1 - q\<bar> * M" using M(1) by (simp add: abs_mult)
      also have "\<dots> \<le> (1 / 2 ^ 53) * 1"
        using d1(3) M by (intro mult_mono) simp_all
      finally show ?thesis by simp
    qed
    have t2: "\<bar>(real_of_int k - y2) * (M / 4095)\<bar> \<le> M / 4095"
    proof -
      have "\<bar>real_of_int k - y2\<bar> \<le> 1" using k by linarith
      then have "\<bar>real_of_int k - y2\<bar> * (M / 4095) \<le> 1 * (M / 4095)"
        using M(1) by (intro mult_right_mono) simp_all
      then show ?thesis using M(1) by (simp add: abs_mult)
    qed
    have t3: "\<bar>(y2 - 4095 * y1) * (M / 4095)\<bar> \<le> 1 / 2 ^ 53"
    proof -
      have "\<bar>(y2 - 4095 * y1) * (M / 4095)\<bar> = \<bar>y2 - 4095 * y1\<bar> * (M / 4095)"
        using M(1) by (simp add: abs_mult)
      also have "\<dots> \<le> (4095 / 2 ^ 53) * (1 / 4095)"
        using e2 M by (intro mult_mono) simp_all
      finally show ?thesis by simp
    qed
    have t4: "\<bar>(y1 - a) * M\<bar> \<le> 1 / 2 ^ 53"
    proof -
      have "\<bar>(y1 - a) * M\<bar> = \<bar>y1 - a\<bar> * M" using M(1) by (simp add: abs_mult)
      also have "\<dots> \<le> (1 / 2 ^ 53) * 1"
        using y1(3) M by (intro mult_mono) simp_all
      finally show ?thesis by simp
    qed
    have "\<bar>d2 - x\<bar> \<le> M / 4095 + 4 / 2 ^ 53"
      unfolding split using d2(3) t1 t2 t3 t4 by linarith
    then show ?thesis unfolding res .
  qed
qed

lemma fromScaled_toScaled_close:
  assumes "- (SCALING_MAX_X / 4095 + 4 / 2 ^ 53) \<le> cx c"
    "cx c \<le> SCALING_MAX_X + (SCALING_MAX_X / 4095 + 4 / 2 ^ 53)"
    "- (SCALING_MAX_Y / 4095 + 4 / 2 ^ 53) \<le> cy c"
    "cy c \<le> SCALING_MAX_Y + (SCALING_MAX_Y / 4095 + 4 / 2 ^ 53)"
  shows "close_xy_rounded c (fromScaled (toScaled c))"
  unfolding close_xy_rounded_def fromScaled_def toScaled_def
  using scaled_coordinate_close [OF SCALING_MAX_bounds(1,2) fl_SCALING_MAX(1) assms(1,2)]
    scaled_coordinate_close [OF SCALING_MAX_bounds(3,4) fl_SCALING_MAX(2) assms(3,4)]
  by simp

text \<open>The 16-bit fraction of \<open>colorXY\<close>: two rounded operations and one truncation.\<close>

lemma fl_65535: "fl 65535 = 65535"
  using fl_of_int [of 65535] by simp

lemma u16_fraction_close:
  fixes x :: real
  assumes "0 \<le> x" "x \<le> 1"
  shows "\<bar>fl (of_int (js_trunc (fl (x * 0xffff)) mod 65536) / 0xffff) - x\<bar> \<le> 1 / 65535 + 2 / 2 ^ 53"
proof -
  define y where "y = fl (x * 65535)"
  define n where "n = \<lfloor>y\<rfloor>"
  define q where "q = real_of_int n / 65535"
  define d where "d = fl q"
  have b: "0 \<le> x * 65535" "x * 65535 \<le> 65535" using assms by simp_all
  have y: "0 \<le> y" "y \<le> 65535"
    using fl_nonneg [OF b(1)] fl_mono_nonneg [OF b] by (simp_all add: y_def fl_65535)
  have e: "\<bar>y - x * 65535\<bar> \<le> 65535 / 2 ^ 53"
    unfolding y_def using fl_err_bound [of "x * 65535" 65535] b tiny_le_1 by simp
  have n: "0 \<le> n" "n \<le> 65535" "real_of_int n \<le> y" "y < real_of_int n + 1"
    using y unfolding n_def by linarith+
  have q: "0 \<le> q" "q \<le> 1" using n by (simp_all add: q_def)
  note d = fl_unit [OF q, folded d_def]
  have t: "js_trunc y = n" using y by (simp add: js_trunc_def n_def)
  have m: "n mod 65536 = n" using n by simp
  have res: "fl (of_int (js_trunc (fl (x * 0xffff)) mod 65536) / 0xffff) = d"
    by (simp add: y_def[symmetric] t m q_def[symmetric] d_def[symmetric])
  have split: "d - x = (d - q) + (real_of_int n - y) / 65535 + (y - x * 65535) / 65535"
    unfolding q_def by (simp add: field_simps)
  have t2: "\<bar>(real_of_int n - y) / 65535\<bar> \<le> 1 / 65535"
    using n by simp
  have t3: "\<bar>(y - x * 65535) / 65535\<bar> \<le> 1 / 2 ^ 53"
    using e by simp
  have "\<bar>d - x\<bar> \<le> 1 / 65535 + 2 / 2 ^ 53"
    unfolding split using d(3) t2 t3 by linarith
  then show ?thesis unfolding res .
qed

lemma u16_fraction_close_xy:
  assumes "0 \<le> cx c" "cx c \<le> 1" "0 \<le> cy c" "cy c \<le> 1"
  shows "close_xy c \<lparr>cx = fl (of_int (js_trunc (fl (cx c * 0xffff)) mod 65536) / 0xffff),
                      cy = fl (of_int (js_trunc (fl (cy c * 0xffff)) mod 65536) / 0xffff)\<rparr>"
proof -
  have "(1::real) / 65535 + 2 / 2 ^ 53 \<le> SCALING_MAX_X / 4095"
    "(1::real) / 65535 + 2 / 2 ^ 53 \<le> SCALING_MAX_Y / 4095"
    by (simp_all add: SCALING_MAX_X_val SCALING_MAX_Y_val)
  then show ?thesis
    unfolding close_xy_def
    using u16_fraction_close [OF assms(1,2)] u16_fraction_close [OF assms(3,4)]
    by simp
qed

text \<open>A multiple of 1/8 that fits one byte passes through \<open>* 8\<close> and \<open>/ 8\<close> unchanged.\<close>

lemma eighths_exact:
  fixes s :: real
  assumes "0 \<le> s" "s \<le> 31.875" "of_int \<lfloor>s * 8\<rfloor> = s * 8"
  shows "fl (of_int (js_trunc (fl (s * 8)) mod 256) / 8) = s"
proof -
  define k where "k = \<lfloor>s * 8\<rfloor>"
  have s8: "s * 8 = of_int k" unfolding k_def by (rule assms(3) [symmetric])
  have "0 \<le> s * 8" "s * 8 \<le> 255" using assms by simp_all
  then have k: "0 \<le> k" "k \<le> 255"
    unfolding k_def by (simp_all add: le_floor_iff floor_le_iff)
  have f1: "fl (of_int k) = of_int k" using k by (intro fl_of_int) simp
  have t: "js_trunc (of_int k) = k" using k by (simp add: js_trunc_def)
  have m: "k mod 256 = k" using k by simp
  have f2: "fl (of_int k / 8) = of_int k / 8"
    using fl_exact [of k 3] k by simp
  show ?thesis
    unfolding s8 f1 t m f2 using s8 by simp
qed

text \<open>
  The quantization of \<open>toScaled\<close> on one coordinate: its value from the values of the two
  rounded operations, at and beyond the ends of the axis, and its monotonicity. The
  dequantization of \<open>fromScaled\<close> at the ends of the axis.
\<close>

lemma quantize_value:
  assumes "fl (x / M) = y1" "0 \<le> y1" "y1 \<le> 1" "fl (0xfff * y1) = y2" "0 \<le> y2" "\<lfloor>y2\<rfloor> = k"
  shows "js_trunc (fl (0xfff * max 0 (min (fl (x / M)) 1))) = k"
proof -
  have "max 0 (min y1 1) = y1" using assms(2,3) by simp
  then show ?thesis
    using assms by (simp add: js_trunc_def)
qed

lemma quantize_low:
  assumes "0 < M" "x \<le> 0"
  shows "js_trunc (fl (0xfff * max 0 (min (fl (x / M)) 1))) = 0"
proof -
  have "x / M \<le> 0" using assms by (simp add: divide_le_0_iff)
  then have "fl (x / M) \<le> 0" by (rule fl_nonpos)
  then have "max 0 (min (fl (x / M)) 1) = 0" by simp
  then show ?thesis by (simp add: fl_0 js_trunc_def)
qed

lemma quantize_high:
  assumes "0 < M" "M \<le> x"
  shows "js_trunc (fl (0xfff * max 0 (min (fl (x / M)) 1))) = 4095"
proof -
  have "1 \<le> x / M" using assms by simp
  then have "fl 1 \<le> fl (x / M)" by (intro fl_mono_nonneg) simp_all
  then have "max 0 (min (fl (x / M)) 1) = 1" by (simp add: fl_1)
  then show ?thesis by (simp add: fl_4095 js_trunc_def)
qed

lemma quantize_mono:
  assumes "0 < M" "x \<le> x'"
  shows "js_trunc (fl (0xfff * max 0 (min (fl (x / M)) 1)))
           \<le> js_trunc (fl (0xfff * max 0 (min (fl (x' / M)) 1)))"
proof (cases "x \<le> 0")
  case True
  then show ?thesis
    using quantize_low [OF assms(1) True] js_trunc_clamp_range [of "fl (x' / M)"] by simp
next
  case False
  then have "0 \<le> x / M" "x / M \<le> x' / M"
    using assms by (simp_all add: divide_right_mono)
  then have "fl (x / M) \<le> fl (x' / M)" by (rule fl_mono_nonneg)
  then have c: "0xfff * max 0 (min (fl (x / M)) 1) \<le> 0xfff * max 0 (min (fl (x' / M)) 1)"
    by simp
  have "0 \<le> 0xfff * max 0 (min (fl (x / M)) 1)" by simp
  then have f: "0 \<le> fl (0xfff * max 0 (min (fl (x / M)) 1))"
    "fl (0xfff * max 0 (min (fl (x / M)) 1)) \<le> fl (0xfff * max 0 (min (fl (x' / M)) 1))"
    using c by (simp_all add: fl_nonneg fl_mono_nonneg)
  then have "\<lfloor>fl (0xfff * max 0 (min (fl (x / M)) 1))\<rfloor> \<le> \<lfloor>fl (0xfff * max 0 (min (fl (x' / M)) 1))\<rfloor>"
    by (intro floor_mono)
  then show ?thesis using f by (simp add: js_trunc_def)
qed

lemma quantize_between:
  assumes M: "0 < M"
    and k: "js_trunc (fl (0xfff * max 0 (min (fl (x / M)) 1))) = k"
    and lo: "js_trunc (fl (0xfff * max 0 (min (fl (l / M)) 1))) < k"
    and hi: "k < js_trunc (fl (0xfff * max 0 (min (fl (u / M)) 1)))"
  shows "l < x" "x < u"
proof -
  show "l < x"
  proof (rule ccontr)
    assume "\<not> l < x"
    then have "x \<le> l" by simp
    from quantize_mono [OF M this] k lo show False by simp
  qed
  show "x < u"
  proof (rule ccontr)
    assume "\<not> x < u"
    then have "u \<le> x" by simp
    from quantize_mono [OF M this] k hi show False by simp
  qed
qed

lemma dequantize_value:
  assumes "fl (of_int k / 0xfff) = d1" "fl (d1 * M) = d2"
  shows "fl (fl (of_int k / 0xfff) * M) = d2"
  using assms by simp

lemma dequantize_zero: "fl (fl (of_int 0 / 0xfff) * M) = 0"
  by (simp add: fl_0)

lemma dequantize_max: "fl M = M \<Longrightarrow> fl (fl (of_int 4095 / 0xfff) * M) = M"
  by (simp add: fl_1)

section \<open>Round trip\<close>

lemma list_all2_map_right:
  "list_all (\<lambda>c. P c (f c)) cs \<Longrightarrow> list_all2 P cs (map f cs)"
  by (induction cs) simp_all

lemma wire_image_exact:
  assumes "in_documented_range m"
  shows "isOn (wire_image m) = isOn m"
    "brightness (wire_image m) = brightness m"
    "colorTemp (wire_image m) = colorTemp m"
    "transitionTime (wire_image m) = transitionTime m"
    "effect (wire_image m) = effect m"
    "effectSpeed (wire_image m) = effectSpeed m"
    "gradientParams (wire_image m) = gradientParams m"
proof -
  show "isOn (wire_image m) = isOn m" by (simp add: wire_image_def)
  show "brightness (wire_image m) = brightness m"
  proof (cases "brightness m")
    case None
    then show ?thesis by (simp add: wire_image_def)
  next
    case (Some b)
    with assms obtain r where b: "b = Finite r" and r: "1 \<le> r" "r \<le> 254" "of_int \<lfloor>r\<rfloor> = r"
      by (cases b) (simp_all add: in_documented_range_def)
    have "0 \<le> \<lfloor>r\<rfloor>" "\<lfloor>r\<rfloor> \<le> 254" using r by linarith+
    then have "\<lfloor>r\<rfloor> mod 256 = \<lfloor>r\<rfloor>" by simp
    then show ?thesis
      using Some b r by (simp add: wire_image_def js_trunc_def)
  qed
  show "colorTemp (wire_image m) = colorTemp m"
    using assms by (cases "colorTemp m") (simp_all add: wire_image_def in_documented_range_def)
  show "transitionTime (wire_image m) = transitionTime m"
    using assms by (cases "transitionTime m") (simp_all add: wire_image_def in_documented_range_def)
  show "effect (wire_image m) = effect m"
    using assms by (cases "effect m") (simp_all add: wire_image_def in_documented_range_def)
  show "effectSpeed (wire_image m) = effectSpeed m"
    using assms by (cases "effectSpeed m") (simp_all add: wire_image_def in_documented_range_def)
  show "gradientParams (wire_image m) = gradientParams m"
  proof (cases "gradientParams m")
    case None
    then show ?thesis by (simp add: wire_image_def)
  next
    case (Some p)
    with assms have r: "0 \<le> scale p" "scale p \<le> 31.875" "of_int \<lfloor>scale p * 8\<rfloor> = scale p * 8"
      "0 \<le> offset p" "offset p \<le> 31.875" "of_int \<lfloor>offset p * 8\<rfloor> = offset p * 8"
      by (simp_all add: in_documented_range_def)
    show ?thesis
      using Some eighths_exact [OF r(1,2,3)] eighths_exact [OF r(4,5,6)]
      by (cases p) (simp add: wire_image_def)
  qed
qed

lemma wire_image_close:
  assumes "in_documented_range m"
  shows "rel_option close_xy (colorXY m) (colorXY (wire_image m))"
    "rel_option (\<lambda>g g'. style g' = style g \<and> list_all2 close_xy_rounded (colors g) (colors g'))
       (gradient m) (gradient (wire_image m))"
proof -
  show "rel_option close_xy (colorXY m) (colorXY (wire_image m))"
  proof (cases "colorXY m")
    case None
    then show ?thesis by (simp add: wire_image_def)
  next
    case (Some c)
    with assms have "0 \<le> cx c" "cx c \<le> 1" "0 \<le> cy c" "cy c \<le> 1"
      by (simp_all add: in_documented_range_def)
    then show ?thesis
      using Some u16_fraction_close_xy [of c] by (simp add: wire_image_def)
  qed
  show "rel_option (\<lambda>g g'. style g' = style g \<and> list_all2 close_xy_rounded (colors g) (colors g'))
       (gradient m) (gradient (wire_image m))"
  proof (cases "gradient m")
    case None
    then show ?thesis by (simp add: wire_image_def)
  next
    case (Some g)
    with assms have st: "0 \<le> style g" "style g \<le> 255"
      and cs: "list_all (\<lambda>c. - (SCALING_MAX_X / 4095 + 4 / 2 ^ 53) \<le> cx c \<and>
                       cx c \<le> SCALING_MAX_X + (SCALING_MAX_X / 4095 + 4 / 2 ^ 53) \<and>
                       - (SCALING_MAX_Y / 4095 + 4 / 2 ^ 53) \<le> cy c \<and>
                       cy c \<le> SCALING_MAX_Y + (SCALING_MAX_Y / 4095 + 4 / 2 ^ 53))
           (colors g)"
      by (simp_all add: in_documented_range_def)
    have "list_all (\<lambda>c. close_xy_rounded c (fromScaled (toScaled c))) (colors g)"
      using cs by (auto simp add: list_all_iff intro: fromScaled_toScaled_close)
    then have "list_all2 close_xy_rounded (colors g) (map (\<lambda>c. fromScaled (toScaled c)) (colors g))"
      by (rule list_all2_map_right)
    then show ?thesis
      using Some st by (simp add: wire_image_def)
  qed
qed

text \<open>
  C1, as the code has it. For every message whose set attributes lie in their documented
  ranges, with at most 15 gradient colours, each coordinate of which lies no further than
  the tolerance below outside the interval from 0 to the maximum of its axis
  (\<open>in_documented_range\<close>), \<open>toBytes\<close> succeeds and \<open>fromBytes\<close> of its bytes returns a
  message in which on/off, brightness, mired, transition time, effect, effect speed,
  gradient style, the number of gradient colours and the gradient scale and offset are the
  original ones and unset attributes are unset; each coordinate of \<open>colorXY\<close> is within
  1/4095 of the maximum of its axis from the original, and each coordinate of every
  gradient colour is within 1/4095 of the maximum of its axis plus \<open>4 / 2^53\<close> from the
  original. The counterexample has a message with two gradient colours: \<open>x = 0.75\<close>,
  which \<open>toScaled\<close> clamps to the maximum \<open>0.7347\<close> of the axis, and the double
  \<open>x = 0.00915010989010989\<close>, which is \<open>fromScaled\<close> of 51, which \<open>toScaled\<close> truncates to
  50 because the rounded product is \<open>50.99999999999999\<close>, and which comes back further
  than 1/4095 of the maximum of the axis from the original. It has a second message with
  attributes outside the ranges of their fields, which come back truncated and reduced
  modulo the width of the field: brightness 1.5 as 1, mired 65536 as 0, transition time
  65537 as 1, effect 256 as 0, effect speed 257 as 1, gradient style 258 as 2, scale 32
  as 0 and offset 0.0625 as 0.
\<close>

theorem toBytes_fromBytes_roundtrip:
  assumes "in_documented_range m"
  shows "\<exists>bs m'. toBytes m = Inr bs \<and> fromBytes bs = Inr m' \<and>
     isOn m' = isOn m \<and> brightness m' = brightness m \<and> colorTemp m' = colorTemp m \<and>
     transitionTime m' = transitionTime m \<and> effect m' = effect m \<and>
     effectSpeed m' = effectSpeed m \<and> gradientParams m' = gradientParams m \<and>
     rel_option close_xy (colorXY m) (colorXY m') \<and>
     rel_option (\<lambda>g g'. style g' = style g \<and> list_all2 close_xy_rounded (colors g) (colors g'))
       (gradient m) (gradient m')"
proof -
  have b: "\<forall>b. brightness m = Some b \<longrightarrow> \<not> js_less b (Finite 1) \<and> \<not> js_less (Finite 254) b"
  proof (intro allI impI)
    fix b assume "brightness m = Some b"
    with assms obtain r where "b = Finite r" "1 \<le> r" "r \<le> 254"
      by (cases b) (simp_all add: in_documented_range_def)
    then show "\<not> js_less b (Finite 1) \<and> \<not> js_less (Finite 254) b" by simp
  qed
  have n: "\<forall>g. gradient m = Some g \<longrightarrow> length (colors g) \<le> 15"
    using assms by (auto simp add: in_documented_range_def)
  have "toBytes m = Inr (u16le (flag_word m) @ payload m)" using b by (rule toBytes_ok)
  moreover have "fromBytes (u16le (flag_word m) @ payload m) = Inr (wire_image m)"
    using n by (rule fromBytes_encoded)
  ultimately show ?thesis
    using wire_image_exact [OF assms] wire_image_close [OF assms] by blast
qed

theorem toBytes_fromBytes_roundtrip_witness:
  "in_documented_range
     \<lparr>isOn = Some True, brightness = Some (Finite 46), colorTemp = Some \<lparr>mired = 0x1234\<rparr>,
      colorXY = Some \<lparr>cx = 0.5, cy = 0.25\<rparr>, transitionTime = Some 4, effect = Some 15,
      effectSpeed = Some 127,
      gradient = Some \<lparr>style = SCATTERED, colors = [\<lparr>cx = 0.25, cy = 0.5\<rparr>]\<rparr>,
      gradientParams = Some \<lparr>scale = 25.5, offset = 27.625\<rparr>\<rparr> \<and>
   (\<exists>bs m'. toBytes
       \<lparr>isOn = Some True, brightness = Some (Finite 46), colorTemp = Some \<lparr>mired = 0x1234\<rparr>,
        colorXY = Some \<lparr>cx = 0.5, cy = 0.25\<rparr>, transitionTime = Some 4, effect = Some 15,
        effectSpeed = Some 127,
        gradient = Some \<lparr>style = SCATTERED, colors = [\<lparr>cx = 0.25, cy = 0.5\<rparr>]\<rparr>,
        gradientParams = Some \<lparr>scale = 25.5, offset = 27.625\<rparr>\<rparr> = Inr bs \<and>
      fromBytes bs = Inr m' \<and>
      isOn m' = Some True \<and> brightness m' = Some (Finite 46) \<and>
      colorTemp m' = Some \<lparr>mired = 0x1234\<rparr> \<and>
      transitionTime m' = Some 4 \<and> effect m' = Some 15 \<and> effectSpeed m' = Some 127 \<and>
      gradientParams m' = Some \<lparr>scale = 25.5, offset = 27.625\<rparr> \<and>
      rel_option close_xy (Some \<lparr>cx = 0.5, cy = 0.25\<rparr>) (colorXY m') \<and>
      rel_option (\<lambda>g g'. style g' = style g \<and> list_all2 close_xy_rounded (colors g) (colors g'))
        (Some \<lparr>style = SCATTERED, colors = [\<lparr>cx = 0.25, cy = 0.5\<rparr>]\<rparr>) (gradient m'))"
proof -
  define M where "M =
     \<lparr>isOn = Some True, brightness = Some (Finite 46), colorTemp = Some \<lparr>mired = 0x1234\<rparr>,
      colorXY = Some \<lparr>cx = 0.5, cy = 0.25\<rparr>, transitionTime = Some 4, effect = Some 15,
      effectSpeed = Some 127,
      gradient = Some \<lparr>style = SCATTERED, colors = [\<lparr>cx = 0.25, cy = 0.5\<rparr>]\<rparr>,
      gradientParams = Some \<lparr>scale = 25.5, offset = 27.625\<rparr>\<rparr>"
  have h: "in_documented_range M"
    by (simp add: in_documented_range_def M_def SCATTERED_def SCALING_MAX_X_val SCALING_MAX_Y_val)
  from toBytes_fromBytes_roundtrip [OF h] h show ?thesis
    unfolding M_def by simp
qed

text \<open>The values of the rounded operations on the second colour of the counterexample.\<close>

lemma quantize_x_of_51:
  "js_trunc (fl (0xfff * max 0 (min (fl
      (5274679230911743 / 576460752303423488 / SCALING_MAX_X)) 1)))
   = 50"
proof (rule quantize_value)
  show "fl (5274679230911743 / 576460752303423488 / SCALING_MAX_X)
      = of_int 7179364680701977 / 2 ^ 59"
    by (rule fl_is) (simp_all add: SCALING_MAX_X_val)
  show "fl (0xfff * (of_int 7179364680701977 / 2 ^ 59))
      = of_int 7177611906121727 / 2 ^ 47"
    by (rule fl_is) simp_all
  show "\<lfloor>real_of_int 7177611906121727 / 2 ^ 47\<rfloor> = 50"
    by (simp add: floor_eq_iff)
qed simp_all

lemma dequantize_x_50:
  "fl (fl (of_int 50 / 0xfff) * SCALING_MAX_X) = 5171254147952689 / 576460752303423488"
proof -
  have 1: "fl (of_int 50 / 0xfff) = of_int 7038592824217625 / 2 ^ 59"
    by (rule fl_is) simp_all
  have 2: "fl (of_int 7038592824217625 / 2 ^ 59 * SCALING_MAX_X) = of_int 5171254147952689 / 2 ^ 59"
    by (rule fl_is) (simp_all add: SCALING_MAX_X_val)
  have "fl (fl (of_int 50 / 0xfff) * SCALING_MAX_X) = of_int 5171254147952689 / 2 ^ 59"
    using 1 2 by (rule dequantize_value)
  then show ?thesis by simp
qed

lemma dequantize_x_51:
  "fl (fl (of_int 51 / 0xfff) * SCALING_MAX_X) = 5274679230911743 / 576460752303423488"
proof -
  have 1: "fl (of_int 51 / 0xfff) = of_int 7179364680701978 / 2 ^ 59"
    by (rule fl_is) simp_all
  have 2: "fl (of_int 7179364680701978 / 2 ^ 59 * SCALING_MAX_X) = of_int 5274679230911743 / 2 ^ 59"
    by (rule fl_is) (simp_all add: SCALING_MAX_X_val)
  have "fl (fl (of_int 51 / 0xfff) * SCALING_MAX_X) = of_int 5274679230911743 / 2 ^ 59"
    using 1 2 by (rule dequantize_value)
  then show ?thesis by simp
qed

theorem toBytes_fromBytes_gradient_counterexample:
  "toBytes (new_message\<lparr>gradient := Some \<lparr>style = SCATTERED,
       colors = [\<lparr>cx = 0.75, cy = 0\<rparr>, \<lparr>cx = 5274679230911743 / 576460752303423488, cy = 0\<rparr>]\<rparr>\<rparr>)
     = Inr [0x00, 0x01, 0x0a, 0x20, 0x02, 0x00, 0x00, 0xff, 0x0f, 0x00, 0x32, 0x00, 0x00] \<and>
   fromBytes [0x00, 0x01, 0x0a, 0x20, 0x02, 0x00, 0x00, 0xff, 0x0f, 0x00, 0x32, 0x00, 0x00]
     = Inr (new_message\<lparr>gradient := Some \<lparr>style = SCATTERED,
              colors = [\<lparr>cx = SCALING_MAX_X, cy = 0\<rparr>,
                        \<lparr>cx = 5171254147952689 / 576460752303423488, cy = 0\<rparr>]\<rparr>\<rparr>) \<and>
   SCALING_MAX_X / 4095 < \<bar>SCALING_MAX_X - 0.75\<bar> \<and>
   0.7347 / 4095 < \<bar>SCALING_MAX_X - 0.75\<bar> \<and>
   SCALING_MAX_X / 4095 < \<bar>5171254147952689 / 576460752303423488 - 5274679230911743 / 576460752303423488\<bar> \<and>
   0.7347 / 4095 < \<bar>5171254147952689 / 576460752303423488 - (5274679230911743 / 576460752303423488 :: real)\<bar> \<and>
   fromScaled \<lparr>sx = 51, sy = 0\<rparr> = \<lparr>cx = 5274679230911743 / 576460752303423488, cy = 0\<rparr> \<and>
   toBytes \<lparr>isOn = None, brightness = Some (Finite 1.5), colorTemp = Some \<lparr>mired = 65536\<rparr>,
      colorXY = None, transitionTime = Some 65537, effect = Some 256, effectSpeed = Some 257,
      gradient = Some \<lparr>style = 258, colors = []\<rparr>,
      gradientParams = Some \<lparr>scale = 32, offset = 0.0625\<rparr>\<rparr>
     = Inr [0xf6, 0x01, 0x01, 0x00, 0x00, 0x01, 0x00, 0x00, 0x04, 0x00, 0x02, 0x00, 0x00, 0x01,
            0x00, 0x00] \<and>
   fromBytes [0xf6, 0x01, 0x01, 0x00, 0x00, 0x01, 0x00, 0x00, 0x04, 0x00, 0x02, 0x00, 0x00, 0x01,
              0x00, 0x00]
     = Inr \<lparr>isOn = None, brightness = Some (Finite 1), colorTemp = Some \<lparr>mired = 0\<rparr>,
          colorXY = None, transitionTime = Some 1, effect = Some 0, effectSpeed = Some 1,
          gradient = Some \<lparr>style = 2, colors = []\<rparr>,
          gradientParams = Some \<lparr>scale = 0, offset = 0\<rparr>\<rparr>"
proof -
  define M where "M = new_message\<lparr>gradient := Some \<lparr>style = SCATTERED,
       colors = [\<lparr>cx = 0.75, cy = 0\<rparr>, \<lparr>cx = 5274679230911743 / 576460752303423488, cy = 0\<rparr>]\<rparr>\<rparr>"
  have b: "\<forall>b. brightness M = Some b \<longrightarrow> \<not> js_less b (Finite 1) \<and> \<not> js_less (Finite 254) b"
    by (simp add: M_def new_message_def)
  have n: "\<forall>g. gradient M = Some g \<longrightarrow> length (colors g) \<le> 15"
    by (simp add: M_def)
  have hx: "js_trunc (fl (0xfff * max 0 (min (fl (0.75 / SCALING_MAX_X)) 1))) = 4095"
    by (rule quantize_high) (simp_all add: SCALING_MAX_X_val)
  have ly: "js_trunc (fl (0xfff * max 0 (min (fl (0 / SCALING_MAX_Y)) 1))) = 0"
    by (rule quantize_low) (simp_all add: SCALING_MAX_Y_val)
  have ts1: "toScaled \<lparr>cx = 0.75, cy = 0\<rparr> = \<lparr>sx = 4095, sy = 0\<rparr>"
    unfolding toScaled_def by (simp only: HueLightColorXY.select_convs hx ly)
  have ts2: "toScaled \<lparr>cx = 5274679230911743 / 576460752303423488, cy = 0\<rparr>
      = \<lparr>sx = 50, sy = 0\<rparr>"
    unfolding toScaled_def by (simp only: HueLightColorXY.select_convs quantize_x_of_51 ly)
  have fs1: "fromScaled \<lparr>sx = 4095, sy = 0\<rparr> = \<lparr>cx = SCALING_MAX_X, cy = 0\<rparr>"
    unfolding fromScaled_def
    by (simp only: HueLightColorXYScaled.select_convs dequantize_zero
        dequantize_max [OF fl_SCALING_MAX(1)])
  have fs2: "fromScaled \<lparr>sx = 50, sy = 0\<rparr> = \<lparr>cx = 5171254147952689 / 576460752303423488, cy = 0\<rparr>"
    unfolding fromScaled_def
    by (simp only: HueLightColorXYScaled.select_convs dequantize_zero dequantize_x_50)
  have fs3: "fromScaled \<lparr>sx = 51, sy = 0\<rparr> = \<lparr>cx = 5274679230911743 / 576460752303423488, cy = 0\<rparr>"
    unfolding fromScaled_def
    by (simp only: HueLightColorXYScaled.select_convs dequantize_zero dequantize_x_51)
  have cb: "color_bytes \<lparr>cx = 0.75, cy = 0\<rparr> = [0xff, 0x0f, 0x00]"
    "color_bytes \<lparr>cx = 5274679230911743 / 576460752303423488, cy = 0\<rparr> = [0x32, 0x00, 0x00]"
    unfolding color_bytes_def ts1 ts2 scaled_layout by (simp_all add: ToUint8_def)
  have fw: "flag_word M = 256"
    by (simp add: flag_word_def M_def new_message_def GRADIENT_COLORS_def)
  have pl: "payload M = [0x0a, 0x20, 0x02, 0x00, 0x00, 0xff, 0x0f, 0x00, 0x32, 0x00, 0x00]"
    by (simp add: payload_def M_def new_message_def b_isOn_def b_brightness_def b_colorTemp_def
        b_colorXY_def b_transitionTime_def b_effect_def b_gradient_def b_effectSpeed_def
        b_gradientParams_def cb [simplified] ToUint8_def SCATTERED_def)
  have bytes: "u16le (flag_word M) @ payload M
      = [0x00, 0x01, 0x0a, 0x20, 0x02, 0x00, 0x00, 0xff, 0x0f, 0x00, 0x32, 0x00, 0x00]"
    by (simp add: fw pl u16le_def ToUint16_def)
  have enc: "toBytes M = Inr [0x00, 0x01, 0x0a, 0x20, 0x02, 0x00, 0x00, 0xff, 0x0f, 0x00, 0x32, 0x00, 0x00]"
    using toBytes_ok [OF b] by (simp only: bytes)
  have wi: "wire_image M = new_message\<lparr>gradient := Some \<lparr>style = SCATTERED,
              colors = [\<lparr>cx = SCALING_MAX_X, cy = 0\<rparr>,
                        \<lparr>cx = 5171254147952689 / 576460752303423488, cy = 0\<rparr>]\<rparr>\<rparr>"
    by (simp add: wire_image_def M_def new_message_def ts1 [simplified] ts2 [simplified] fs1 fs2
        SCATTERED_def)
  have dec: "fromBytes [0x00, 0x01, 0x0a, 0x20, 0x02, 0x00, 0x00, 0xff, 0x0f, 0x00, 0x32, 0x00, 0x00]
     = Inr (new_message\<lparr>gradient := Some \<lparr>style = SCATTERED,
              colors = [\<lparr>cx = SCALING_MAX_X, cy = 0\<rparr>,
                        \<lparr>cx = 5171254147952689 / 576460752303423488, cy = 0\<rparr>]\<rparr>\<rparr>)"
    using fromBytes_encoded [OF n] by (simp only: bytes wi)
  have far: "SCALING_MAX_X / 4095 < \<bar>SCALING_MAX_X - 0.75\<bar>"
    "0.7347 / 4095 < \<bar>SCALING_MAX_X - 0.75\<bar>"
    "SCALING_MAX_X / 4095 < \<bar>5171254147952689 / 576460752303423488 - 5274679230911743 / 576460752303423488\<bar>"
    "0.7347 / 4095 < \<bar>5171254147952689 / 576460752303423488 - (5274679230911743 / 576460752303423488 :: real)\<bar>"
    by (simp_all add: SCALING_MAX_X_val)
  define W where "W = \<lparr>isOn = None, brightness = Some (Finite 1.5),
      colorTemp = Some \<lparr>mired = 65536\<rparr>, colorXY = None, transitionTime = Some 65537,
      effect = Some 256, effectSpeed = Some 257, gradient = Some \<lparr>style = 258, colors = []\<rparr>,
      gradientParams = Some \<lparr>scale = 32, offset = 0.0625\<rparr>\<rparr>"
  have bw: "\<forall>b. brightness W = Some b \<longrightarrow> \<not> js_less b (Finite 1) \<and> \<not> js_less (Finite 254) b"
    by (simp add: W_def)
  have nw: "\<forall>g. gradient W = Some g \<longrightarrow> length (colors g) \<le> 15"
    by (simp add: W_def)
  have f: "fl 256 = 256" "fl (1 / 2) = 1 / 2"
    using fl_of_int [of 256] fl_exact [of 1 1] by simp_all
  have fww: "flag_word W = 0x1f6"
    by (simp add: flag_word_def W_def ON_OFF_def BRIGHTNESS_def COLOR_MIRED_def COLOR_XY_def
        TRANSITION_TIME_def EFFECT_def GRADIENT_PARAMS_def EFFECT_SPEED_def GRADIENT_COLORS_def)
  have plw: "payload W = [0x01, 0x00, 0x00, 0x01, 0x00, 0x00, 0x04, 0x00, 0x02, 0x00, 0x00, 0x01,
      0x00, 0x00]"
    by (simp add: payload_def W_def b_isOn_def b_brightness_def b_colorTemp_def
        b_colorXY_def b_transitionTime_def b_effect_def b_gradient_def b_effectSpeed_def
        b_gradientParams_def u16le_def ToUint16_def ToUint8_def js_trunc_def f)
  have bytesw: "u16le (flag_word W) @ payload W
      = [0xf6, 0x01, 0x01, 0x00, 0x00, 0x01, 0x00, 0x00, 0x04, 0x00, 0x02, 0x00, 0x00, 0x01,
         0x00, 0x00]"
    by (simp add: fww plw u16le_def ToUint16_def)
  have encw: "toBytes W = Inr [0xf6, 0x01, 0x01, 0x00, 0x00, 0x01, 0x00, 0x00, 0x04, 0x00, 0x02,
      0x00, 0x00, 0x01, 0x00, 0x00]"
    using toBytes_ok [OF bw] by (simp only: bytesw)
  have wiw: "wire_image W = \<lparr>isOn = None, brightness = Some (Finite 1),
          colorTemp = Some \<lparr>mired = 0\<rparr>, colorXY = None, transitionTime = Some 1,
          effect = Some 0, effectSpeed = Some 1, gradient = Some \<lparr>style = 2, colors = []\<rparr>,
          gradientParams = Some \<lparr>scale = 0, offset = 0\<rparr>\<rparr>"
    by (simp add: wire_image_def W_def js_trunc_def f fl_0)
  have decw: "fromBytes [0xf6, 0x01, 0x01, 0x00, 0x00, 0x01, 0x00, 0x00, 0x04, 0x00, 0x02, 0x00,
      0x00, 0x01, 0x00, 0x00]
     = Inr \<lparr>isOn = None, brightness = Some (Finite 1), colorTemp = Some \<lparr>mired = 0\<rparr>,
          colorXY = None, transitionTime = Some 1, effect = Some 0, effectSpeed = Some 1,
          gradient = Some \<lparr>style = 2, colors = []\<rparr>,
          gradientParams = Some \<lparr>scale = 0, offset = 0\<rparr>\<rparr>"
    using fromBytes_encoded [OF nw] by (simp only: bytesw wiw)
  show ?thesis using enc dec far fs3 encw decw unfolding M_def W_def by (intro conjI)
qed

section \<open>The two-colour gradient example\<close>

text \<open>
  The values of the rounded operations of \<open>fromScaled\<close> at the four scaled coordinates of
  the example, and of \<open>toScaled\<close> at these values and at 1/4095 of the maximum of the axis
  below and above them. By monotonicity, every coordinate that \<open>toScaled\<close> sends to one of
  the four lies within 1/4095 of the maximum of its axis from the value of \<open>fromScaled\<close>.
\<close>

lemma dequantize_x_291:
  "fl (fl (of_int 291 / 0xfff) * SCALING_MAX_X) = 7524174785271163 / 144115188075855872"
proof -
  have 1: "fl (of_int 291 / 0xfff) = of_int 5120576279618322 / 2 ^ 56"
    by (rule fl_is) simp_all
  have 2: "fl (of_int 5120576279618322 / 2 ^ 56 * SCALING_MAX_X)
      = of_int 7524174785271163 / 2 ^ 57"
    by (rule fl_is) (simp_all add: SCALING_MAX_X_val)
  have "fl (fl (of_int 291 / 0xfff) * SCALING_MAX_X) = of_int 7524174785271163 / 2 ^ 57"
    using 1 2 by (rule dequantize_value)
  then show ?thesis by simp
qed

lemma quantize_x_291_at:
  "js_trunc (fl (0xfff * max 0 (min (fl
      (7524174785271163 / 144115188075855872 / SCALING_MAX_X)) 1)))
   = 291"
proof (rule quantize_value)
  show "fl (7524174785271163 / 144115188075855872 / SCALING_MAX_X)
      = of_int 5120576279618322 / 2 ^ 56"
    by (rule fl_is) (simp_all add: SCALING_MAX_X_val)
  show "fl (0xfff * (of_int 5120576279618322 / 2 ^ 56))
      = of_int 5119326138925056 / 2 ^ 44"
    by (rule fl_is) simp_all
  show "\<lfloor>real_of_int 5119326138925056 / 2 ^ 44\<rfloor> = 291"
    by (simp add: floor_eq_iff)
qed simp_all

lemma quantize_x_291_below:
  "js_trunc (fl (0xfff * max 0 (min (fl
      ((7524174785271163 / 144115188075855872 - SCALING_MAX_X / 4095) / SCALING_MAX_X)) 1)))
   = 290"
proof (rule quantize_value)
  show "fl ((7524174785271163 / 144115188075855872 - SCALING_MAX_X / 4095) / SCALING_MAX_X)
      = of_int 5102979797557778 / 2 ^ 56"
    by (rule fl_is) (simp_all add: SCALING_MAX_X_val)
  show "fl (0xfff * (of_int 5102979797557778 / 2 ^ 56))
      = of_int 5101733952880640 / 2 ^ 44"
    by (rule fl_is) simp_all
  show "\<lfloor>real_of_int 5101733952880640 / 2 ^ 44\<rfloor> = 290"
    by (simp add: floor_eq_iff)
qed simp_all

lemma quantize_x_291_above:
  "js_trunc (fl (0xfff * max 0 (min (fl
      ((7524174785271163 / 144115188075855872 + SCALING_MAX_X / 4095) / SCALING_MAX_X)) 1)))
   = 292"
proof (rule quantize_value)
  show "fl ((7524174785271163 / 144115188075855872 + SCALING_MAX_X / 4095) / SCALING_MAX_X)
      = of_int 5138172761678866 / 2 ^ 56"
    by (rule fl_is) (simp_all add: SCALING_MAX_X_val)
  show "fl (0xfff * (of_int 5138172761678866 / 2 ^ 56))
      = of_int 5136918324969472 / 2 ^ 44"
    by (rule fl_is) simp_all
  show "\<lfloor>real_of_int 5136918324969472 / 2 ^ 44\<rfloor> = 292"
    by (simp add: floor_eq_iff)
qed simp_all

lemma preimage_x_291:
  assumes "js_trunc (fl (0xfff * max 0 (min (fl (x / SCALING_MAX_X)) 1))) = 291"
  shows "\<bar>fl (fl (of_int 291 / 0xfff) * SCALING_MAX_X) - x\<bar> \<le> SCALING_MAX_X / 4095"
proof -
  have lo: "js_trunc (fl (0xfff * max 0 (min (fl
      ((7524174785271163 / 144115188075855872 - SCALING_MAX_X / 4095) / SCALING_MAX_X)) 1)))
    < 291"
    unfolding quantize_x_291_below by simp
  have hi: "291 < js_trunc (fl (0xfff * max 0 (min (fl
      ((7524174785271163 / 144115188075855872 + SCALING_MAX_X / 4095) / SCALING_MAX_X)) 1)))"
    unfolding quantize_x_291_above by simp
  note quantize_between [OF SCALING_MAX_bounds(1) assms lo hi]
  then show ?thesis
    unfolding dequantize_x_291 by linarith
qed

lemma dequantize_y_2748:
  "fl (fl (of_int 2748 / 0xfff) * SCALING_MAX_Y) = 2497542604077673 / 4503599627370496"
proof -
  have 1: "fl (of_int 2748 / 0xfff) = of_int 6044391587796885 / 2 ^ 53"
    by (rule fl_is) simp_all
  have 2: "fl (of_int 6044391587796885 / 2 ^ 53 * SCALING_MAX_Y)
      = of_int 4995085208155346 / 2 ^ 53"
    by (rule fl_is) (simp_all add: SCALING_MAX_Y_val)
  have "fl (fl (of_int 2748 / 0xfff) * SCALING_MAX_Y) = of_int 4995085208155346 / 2 ^ 53"
    using 1 2 by (rule dequantize_value)
  then show ?thesis by simp
qed

lemma quantize_y_2748_at:
  "js_trunc (fl (0xfff * max 0 (min (fl
      (2497542604077673 / 4503599627370496 / SCALING_MAX_Y)) 1)))
   = 2748"
proof (rule quantize_value)
  show "fl (2497542604077673 / 4503599627370496 / SCALING_MAX_Y)
      = of_int 6044391587796885 / 2 ^ 53"
    by (rule fl_is) (simp_all add: SCALING_MAX_Y_val)
  show "fl (0xfff * (of_int 6044391587796885 / 2 ^ 53))
      = of_int 6042915906256896 / 2 ^ 41"
    by (rule fl_is) simp_all
  show "\<lfloor>real_of_int 6042915906256896 / 2 ^ 41\<rfloor> = 2748"
    by (simp add: floor_eq_iff)
qed simp_all

lemma quantize_y_2748_below:
  "js_trunc (fl (0xfff * max 0 (min (fl
      ((2497542604077673 / 4503599627370496 - SCALING_MAX_Y / 4095) / SCALING_MAX_Y)) 1)))
   = 2747"
proof (rule quantize_value)
  show "fl ((2497542604077673 / 4503599627370496 - SCALING_MAX_Y / 4095) / SCALING_MAX_Y)
      = of_int 6042192027539317 / 2 ^ 53"
    by (rule fl_is) (simp_all add: SCALING_MAX_Y_val)
  show "fl (0xfff * (of_int 6042192027539317 / 2 ^ 53))
      = of_int 6040716883001344 / 2 ^ 41"
    by (rule fl_is) simp_all
  show "\<lfloor>real_of_int 6040716883001344 / 2 ^ 41\<rfloor> = 2747"
    by (simp add: floor_eq_iff)
qed simp_all

lemma quantize_y_2748_above:
  "js_trunc (fl (0xfff * max 0 (min (fl
      ((2497542604077673 / 4503599627370496 + SCALING_MAX_Y / 4095) / SCALING_MAX_Y)) 1)))
   = 2749"
proof (rule quantize_value)
  show "fl ((2497542604077673 / 4503599627370496 + SCALING_MAX_Y / 4095) / SCALING_MAX_Y)
      = of_int 6046591148054453 / 2 ^ 53"
    by (rule fl_is) (simp_all add: SCALING_MAX_Y_val)
  show "fl (0xfff * (of_int 6046591148054453 / 2 ^ 53))
      = of_int 6045114929512448 / 2 ^ 41"
    by (rule fl_is) simp_all
  show "\<lfloor>real_of_int 6045114929512448 / 2 ^ 41\<rfloor> = 2749"
    by (simp add: floor_eq_iff)
qed simp_all

lemma preimage_y_2748:
  assumes "js_trunc (fl (0xfff * max 0 (min (fl (x / SCALING_MAX_Y)) 1))) = 2748"
  shows "\<bar>fl (fl (of_int 2748 / 0xfff) * SCALING_MAX_Y) - x\<bar> \<le> SCALING_MAX_Y / 4095"
proof -
  have lo: "js_trunc (fl (0xfff * max 0 (min (fl
      ((2497542604077673 / 4503599627370496 - SCALING_MAX_Y / 4095) / SCALING_MAX_Y)) 1)))
    < 2748"
    unfolding quantize_y_2748_below by simp
  have hi: "2748 < js_trunc (fl (0xfff * max 0 (min (fl
      ((2497542604077673 / 4503599627370496 + SCALING_MAX_Y / 4095) / SCALING_MAX_Y)) 1)))"
    unfolding quantize_y_2748_above by simp
  note quantize_between [OF SCALING_MAX_bounds(3) assms lo hi]
  then show ?thesis
    unfolding dequantize_y_2748 by linarith
qed

lemma dequantize_x_1929:
  "fl (fl (of_int 1929 / 0xfff) * SCALING_MAX_X) = 6234593282125461 / 18014398509481984"
proof -
  have 1: "fl (of_int 1929 / 0xfff) = of_int 8485903473697374 / 2 ^ 54"
    by (rule fl_is) simp_all
  have 2: "fl (of_int 8485903473697374 / 2 ^ 54 * SCALING_MAX_X)
      = of_int 6234593282125461 / 2 ^ 54"
    by (rule fl_is) (simp_all add: SCALING_MAX_X_val)
  have "fl (fl (of_int 1929 / 0xfff) * SCALING_MAX_X) = of_int 6234593282125461 / 2 ^ 54"
    using 1 2 by (rule dequantize_value)
  then show ?thesis by simp
qed

lemma quantize_x_1929_at:
  "js_trunc (fl (0xfff * max 0 (min (fl
      (6234593282125461 / 18014398509481984 / SCALING_MAX_X)) 1)))
   = 1929"
proof (rule quantize_value)
  show "fl (6234593282125461 / 18014398509481984 / SCALING_MAX_X)
      = of_int 8485903473697374 / 2 ^ 54"
    by (rule fl_is) (simp_all add: SCALING_MAX_X_val)
  show "fl (0xfff * (of_int 8485903473697374 / 2 ^ 54))
      = of_int 8483831719919616 / 2 ^ 42"
    by (rule fl_is) simp_all
  show "\<lfloor>real_of_int 8483831719919616 / 2 ^ 42\<rfloor> = 1929"
    by (simp add: floor_eq_iff)
qed simp_all

lemma quantize_x_1929_below:
  "js_trunc (fl (0xfff * max 0 (min (fl
      ((6234593282125461 / 18014398509481984 - SCALING_MAX_X / 4095) / SCALING_MAX_X)) 1)))
   = 1928"
proof (rule quantize_value)
  show "fl ((6234593282125461 / 18014398509481984 - SCALING_MAX_X / 4095) / SCALING_MAX_X)
      = of_int 8481504353182238 / 2 ^ 54"
    by (rule fl_is) (simp_all add: SCALING_MAX_X_val)
  show "fl (0xfff * (of_int 8481504353182238 / 2 ^ 54))
      = of_int 8479433673408512 / 2 ^ 42"
    by (rule fl_is) simp_all
  show "\<lfloor>real_of_int 8479433673408512 / 2 ^ 42\<rfloor> = 1928"
    by (simp add: floor_eq_iff)
qed simp_all

lemma quantize_x_1929_above:
  "js_trunc (fl (0xfff * max 0 (min (fl
      ((6234593282125461 / 18014398509481984 + SCALING_MAX_X / 4095) / SCALING_MAX_X)) 1)))
   = 1930"
proof (rule quantize_value)
  show "fl ((6234593282125461 / 18014398509481984 + SCALING_MAX_X / 4095) / SCALING_MAX_X)
      = of_int 8490302594212510 / 2 ^ 54"
    by (rule fl_is) (simp_all add: SCALING_MAX_X_val)
  show "fl (0xfff * (of_int 8490302594212510 / 2 ^ 54))
      = of_int 8488229766430720 / 2 ^ 42"
    by (rule fl_is) simp_all
  show "\<lfloor>real_of_int 8488229766430720 / 2 ^ 42\<rfloor> = 1930"
    by (simp add: floor_eq_iff)
qed simp_all

lemma preimage_x_1929:
  assumes "js_trunc (fl (0xfff * max 0 (min (fl (x / SCALING_MAX_X)) 1))) = 1929"
  shows "\<bar>fl (fl (of_int 1929 / 0xfff) * SCALING_MAX_X) - x\<bar> \<le> SCALING_MAX_X / 4095"
proof -
  have lo: "js_trunc (fl (0xfff * max 0 (min (fl
      ((6234593282125461 / 18014398509481984 - SCALING_MAX_X / 4095) / SCALING_MAX_X)) 1)))
    < 1929"
    unfolding quantize_x_1929_below by simp
  have hi: "1929 < js_trunc (fl (0xfff * max 0 (min (fl
      ((6234593282125461 / 18014398509481984 + SCALING_MAX_X / 4095) / SCALING_MAX_X)) 1)))"
    unfolding quantize_x_1929_above by simp
  note quantize_between [OF SCALING_MAX_bounds(1) assms lo hi]
  then show ?thesis
    unfolding dequantize_x_1929 by linarith
qed

lemma dequantize_y_3567:
  "fl (fl (of_int 3567 / 0xfff) * SCALING_MAX_Y) = 3241897550489469 / 4503599627370496"
proof -
  have 1: "fl (of_int 3567 / 0xfff) = of_int 7845831438745084 / 2 ^ 53"
    by (rule fl_is) simp_all
  have 2: "fl (of_int 7845831438745084 / 2 ^ 53 * SCALING_MAX_Y)
      = of_int 6483795100978938 / 2 ^ 53"
    by (rule fl_is) (simp_all add: SCALING_MAX_Y_val)
  have "fl (fl (of_int 3567 / 0xfff) * SCALING_MAX_Y) = of_int 6483795100978938 / 2 ^ 53"
    using 1 2 by (rule dequantize_value)
  then show ?thesis by simp
qed

lemma quantize_y_3567_at:
  "js_trunc (fl (0xfff * max 0 (min (fl
      (3241897550489469 / 4503599627370496 / SCALING_MAX_Y)) 1)))
   = 3567"
proof (rule quantize_value)
  show "fl (3241897550489469 / 4503599627370496 / SCALING_MAX_Y)
      = of_int 7845831438745084 / 2 ^ 53"
    by (rule fl_is) (simp_all add: SCALING_MAX_Y_val)
  show "fl (0xfff * (of_int 7845831438745084 / 2 ^ 53))
      = of_int 7843915952553984 / 2 ^ 41"
    by (rule fl_is) simp_all
  show "\<lfloor>real_of_int 7843915952553984 / 2 ^ 41\<rfloor> = 3567"
    by (simp add: floor_eq_iff)
qed simp_all

lemma quantize_y_3567_below:
  "js_trunc (fl (0xfff * max 0 (min (fl
      ((3241897550489469 / 4503599627370496 - SCALING_MAX_Y / 4095) / SCALING_MAX_Y)) 1)))
   = 3566"
proof (rule quantize_value)
  show "fl ((3241897550489469 / 4503599627370496 - SCALING_MAX_Y / 4095) / SCALING_MAX_Y)
      = of_int 7843631878487516 / 2 ^ 53"
    by (rule fl_is) (simp_all add: SCALING_MAX_Y_val)
  show "fl (0xfff * (of_int 7843631878487516 / 2 ^ 53))
      = of_int 7841716929298432 / 2 ^ 41"
    by (rule fl_is) simp_all
  show "\<lfloor>real_of_int 7841716929298432 / 2 ^ 41\<rfloor> = 3566"
    by (simp add: floor_eq_iff)
qed simp_all

lemma quantize_y_3567_above:
  "js_trunc (fl (0xfff * max 0 (min (fl
      ((3241897550489469 / 4503599627370496 + SCALING_MAX_Y / 4095) / SCALING_MAX_Y)) 1)))
   = 3568"
proof (rule quantize_value)
  show "fl ((3241897550489469 / 4503599627370496 + SCALING_MAX_Y / 4095) / SCALING_MAX_Y)
      = of_int 7848030999002652 / 2 ^ 53"
    by (rule fl_is) (simp_all add: SCALING_MAX_Y_val)
  show "fl (0xfff * (of_int 7848030999002652 / 2 ^ 53))
      = of_int 7846114975809536 / 2 ^ 41"
    by (rule fl_is) simp_all
  show "\<lfloor>real_of_int 7846114975809536 / 2 ^ 41\<rfloor> = 3568"
    by (simp add: floor_eq_iff)
qed simp_all

lemma preimage_y_3567:
  assumes "js_trunc (fl (0xfff * max 0 (min (fl (x / SCALING_MAX_Y)) 1))) = 3567"
  shows "\<bar>fl (fl (of_int 3567 / 0xfff) * SCALING_MAX_Y) - x\<bar> \<le> SCALING_MAX_Y / 4095"
proof -
  have lo: "js_trunc (fl (0xfff * max 0 (min (fl
      ((3241897550489469 / 4503599627370496 - SCALING_MAX_Y / 4095) / SCALING_MAX_Y)) 1)))
    < 3567"
    unfolding quantize_y_3567_below by simp
  have hi: "3567 < js_trunc (fl (0xfff * max 0 (min (fl
      ((3241897550489469 / 4503599627370496 + SCALING_MAX_Y / 4095) / SCALING_MAX_Y)) 1)))"
    unfolding quantize_y_3567_above by simp
  note quantize_between [OF SCALING_MAX_bounds(3) assms lo hi]
  then show ?thesis
    unfolding dequantize_y_3567 by linarith
qed

lemma toScaled_components:
  assumes "toScaled c = \<lparr>sx = kx, sy = ky\<rparr>"
  shows "js_trunc (fl (0xfff * max 0 (min (fl (cx c / SCALING_MAX_X)) 1))) = kx"
    and "js_trunc (fl (0xfff * max 0 (min (fl (cy c / SCALING_MAX_Y)) 1))) = ky"
  using assms by (simp_all add: toScaled_def)

lemma example_colors_close:
  "toScaled c = \<lparr>sx = 0x123, sy = 0xABC\<rparr> \<Longrightarrow> close_xy c (fromScaled \<lparr>sx = 0x123, sy = 0xABC\<rparr>)"
  "toScaled c = \<lparr>sx = 0x789, sy = 0xDEF\<rparr> \<Longrightarrow> close_xy c (fromScaled \<lparr>sx = 0x789, sy = 0xDEF\<rparr>)"
proof -
  show "close_xy c (fromScaled \<lparr>sx = 0x123, sy = 0xABC\<rparr>)"
    if t: "toScaled c = \<lparr>sx = 0x123, sy = 0xABC\<rparr>"
    unfolding close_xy_def fromScaled_def
    using preimage_x_291 [OF toScaled_components(1) [OF t]]
      preimage_y_2748 [OF toScaled_components(2) [OF t]]
    by (simp only: HueLightColorXY.select_convs HueLightColorXYScaled.select_convs simp_thms)
  show "close_xy c (fromScaled \<lparr>sx = 0x789, sy = 0xDEF\<rparr>)"
    if t: "toScaled c = \<lparr>sx = 0x789, sy = 0xDEF\<rparr>"
    unfolding close_xy_def fromScaled_def
    using preimage_x_1929 [OF toScaled_components(1) [OF t]]
      preimage_y_3567 [OF toScaled_components(2) [OF t]]
    by (simp only: HueLightColorXY.select_convs HueLightColorXYScaled.select_convs simp_thms)
qed

lemma example_colors_fixed:
  "toScaled (fromScaled \<lparr>sx = 0x123, sy = 0xABC\<rparr>) = \<lparr>sx = 0x123, sy = 0xABC\<rparr>"
  "toScaled (fromScaled \<lparr>sx = 0x789, sy = 0xDEF\<rparr>) = \<lparr>sx = 0x789, sy = 0xDEF\<rparr>"
  unfolding toScaled_def fromScaled_def
  by (simp_all only: HueLightColorXY.select_convs HueLightColorXYScaled.select_convs
      dequantize_x_291 dequantize_y_2748 dequantize_x_1929 dequantize_y_3567
      quantize_x_291_at quantize_y_2748_at quantize_x_1929_at quantize_y_3567_at)

lemma eighths_of_example:
  "js_trunc (fl (25.5 * 8)) = 204" "js_trunc (fl (27.625 * 8)) = 221"
  "fl (of_int (204 mod 256) / 8) = 25.5" "fl (of_int (221 mod 256) / 8) = 27.625"
proof -
  have f: "fl 204 = 204" "fl 221 = 221"
    using fl_of_int [of 204] fl_of_int [of 221] by simp_all
  show "js_trunc (fl (25.5 * 8)) = 204" "js_trunc (fl (27.625 * 8)) = 221"
    by (simp_all add: f js_trunc_def)
  show "fl (of_int (204 mod 256) / 8) = 25.5" "fl (of_int (221 mod 256) / 8) = 27.625"
    using fl_exact [of 204 3] fl_exact [of 221 3] by simp_all
qed

text \<open>
  C2. For any two colours whose scaled 12-bit representations are \<open>(0x123, 0xABC)\<close> and
  \<open>(0x789, 0xDEF)\<close>, the message with the gradient of style \<open>SCATTERED\<close> over these two
  colours and the gradient parameters scale 25.5 and offset 27.625 encodes to exactly the
  15 bytes \<open>40 01 0a 20 02 00 00 23 c1 ab 89 f7 de cc dd\<close>: the flag word \<open>0x0140\<close>
  little-endian, the gradient block (size \<open>0x0a\<close>, count \<open>0x20\<close>, style \<open>0x02\<close>, two
  zero bytes, two packed colours) and then the parameter bytes \<open>0xcc\<close> and \<open>0xdd\<close>, the
  block of flag bit 8 before the bytes of flag bit 6. Decoding these bytes gives the style,
  the two colours of the scaled representations, each within the quantization tolerance of
  the original colour, and the same scale and offset.
\<close>

theorem gradient_example_bytes:
  assumes c1: "toScaled c1 = \<lparr>sx = 0x123, sy = 0xABC\<rparr>"
    and c2: "toScaled c2 = \<lparr>sx = 0x789, sy = 0xDEF\<rparr>"
  shows "toBytes (new_message\<lparr>gradient := Some \<lparr>style = SCATTERED, colors = [c1, c2]\<rparr>,
                              gradientParams := Some \<lparr>scale = 25.5, offset = 27.625\<rparr>\<rparr>)
           = Inr [0x40, 0x01, 0x0a, 0x20, 0x02, 0x00, 0x00, 0x23, 0xc1, 0xab, 0x89, 0xf7, 0xde, 0xcc, 0xdd] \<and>
         fromBytes [0x40, 0x01, 0x0a, 0x20, 0x02, 0x00, 0x00, 0x23, 0xc1, 0xab, 0x89, 0xf7, 0xde, 0xcc, 0xdd]
           = Inr (new_message\<lparr>gradient := Some \<lparr>style = SCATTERED,
                      colors = [fromScaled \<lparr>sx = 0x123, sy = 0xABC\<rparr>, fromScaled \<lparr>sx = 0x789, sy = 0xDEF\<rparr>]\<rparr>,
                    gradientParams := Some \<lparr>scale = 25.5, offset = 27.625\<rparr>\<rparr>) \<and>
         close_xy c1 (fromScaled \<lparr>sx = 0x123, sy = 0xABC\<rparr>) \<and>
         close_xy c2 (fromScaled \<lparr>sx = 0x789, sy = 0xDEF\<rparr>) \<and>
         GRADIENT_PARAMS = 0x40 \<and> GRADIENT_COLORS = 0x100"
proof -
  define M where "M = new_message\<lparr>gradient := Some \<lparr>style = SCATTERED, colors = [c1, c2]\<rparr>,
                              gradientParams := Some \<lparr>scale = 25.5, offset = 27.625\<rparr>\<rparr>"
  have b: "\<forall>b. brightness M = Some b \<longrightarrow> \<not> js_less b (Finite 1) \<and> \<not> js_less (Finite 254) b"
    by (simp add: M_def new_message_def)
  have n: "\<forall>g. gradient M = Some g \<longrightarrow> length (colors g) \<le> 15"
    by (simp add: M_def)
  have cb: "color_bytes c1 = [0x23, 0xc1, 0xab]" "color_bytes c2 = [0x89, 0xf7, 0xde]"
    unfolding color_bytes_def c1 c2 scaled_layout by (simp_all add: ToUint8_def)
  have fw: "flag_word M = 0x140"
    by (simp add: flag_word_def M_def new_message_def GRADIENT_COLORS_def GRADIENT_PARAMS_def)
  note gp = eighths_of_example
  have pl: "payload M = [0x0a, 0x20, 0x02, 0x00, 0x00, 0x23, 0xc1, 0xab, 0x89, 0xf7, 0xde, 0xcc, 0xdd]"
    by (simp add: payload_def M_def new_message_def b_isOn_def b_brightness_def b_colorTemp_def
        b_colorXY_def b_transitionTime_def b_effect_def b_gradient_def b_effectSpeed_def
        b_gradientParams_def cb gp(1,2) [simplified] ToUint8_def SCATTERED_def)
  have bytes: "u16le (flag_word M) @ payload M
      = [0x40, 0x01, 0x0a, 0x20, 0x02, 0x00, 0x00, 0x23, 0xc1, 0xab, 0x89, 0xf7, 0xde, 0xcc, 0xdd]"
    by (simp add: fw pl u16le_def ToUint16_def)
  have enc: "toBytes M
      = Inr [0x40, 0x01, 0x0a, 0x20, 0x02, 0x00, 0x00, 0x23, 0xc1, 0xab, 0x89, 0xf7, 0xde, 0xcc, 0xdd]"
    using toBytes_ok [OF b] by (simp only: bytes)
  have wi: "wire_image M = new_message\<lparr>gradient := Some \<lparr>style = SCATTERED,
                      colors = [fromScaled \<lparr>sx = 0x123, sy = 0xABC\<rparr>, fromScaled \<lparr>sx = 0x789, sy = 0xDEF\<rparr>]\<rparr>,
                    gradientParams := Some \<lparr>scale = 25.5, offset = 27.625\<rparr>\<rparr>"
    by (simp add: wire_image_def M_def new_message_def c1 c2 gp(1,2) [simplified] gp(3,4) [simplified]
        SCATTERED_def)
  have dec: "fromBytes [0x40, 0x01, 0x0a, 0x20, 0x02, 0x00, 0x00, 0x23, 0xc1, 0xab, 0x89, 0xf7, 0xde, 0xcc, 0xdd]
      = Inr (new_message\<lparr>gradient := Some \<lparr>style = SCATTERED,
                      colors = [fromScaled \<lparr>sx = 0x123, sy = 0xABC\<rparr>, fromScaled \<lparr>sx = 0x789, sy = 0xDEF\<rparr>]\<rparr>,
                    gradientParams := Some \<lparr>scale = 25.5, offset = 27.625\<rparr>\<rparr>)"
    using fromBytes_encoded [OF n] by (simp only: bytes wi)
  have cl1: "close_xy c1 (fromScaled \<lparr>sx = 0x123, sy = 0xABC\<rparr>)"
    using c1 by (rule example_colors_close)
  have cl2: "close_xy c2 (fromScaled \<lparr>sx = 0x789, sy = 0xDEF\<rparr>)"
    using c2 by (rule example_colors_close)
  have fl: "GRADIENT_PARAMS = 0x40" "GRADIENT_COLORS = 0x100"
    by (simp_all add: GRADIENT_PARAMS_def GRADIENT_COLORS_def)
  show ?thesis using enc dec cl1 cl2 fl unfolding M_def by (intro conjI)
qed

theorem gradient_example_bytes_witness:
  "toScaled (fromScaled \<lparr>sx = 0x123, sy = 0xABC\<rparr>) = \<lparr>sx = 0x123, sy = 0xABC\<rparr> \<and>
   toScaled (fromScaled \<lparr>sx = 0x789, sy = 0xDEF\<rparr>) = \<lparr>sx = 0x789, sy = 0xDEF\<rparr> \<and>
   toBytes (new_message\<lparr>gradient := Some \<lparr>style = SCATTERED,
              colors = [fromScaled \<lparr>sx = 0x123, sy = 0xABC\<rparr>, fromScaled \<lparr>sx = 0x789, sy = 0xDEF\<rparr>]\<rparr>,
            gradientParams := Some \<lparr>scale = 25.5, offset = 27.625\<rparr>\<rparr>)
     = Inr [0x40, 0x01, 0x0a, 0x20, 0x02, 0x00, 0x00, 0x23, 0xc1, 0xab, 0x89, 0xf7, 0xde, 0xcc, 0xdd]"
proof -
  note 1 = example_colors_fixed(1) and 2 = example_colors_fixed(2)
  from gradient_example_bytes [OF 1 2] 1 2 show ?thesis by (intro conjI) simp_all
qed

end
